theory Spec2Isabelle
  imports Complex_Main "HOL-Library.Char_ord" "HOL-Library.List_Lexorder"
    "HOL-Library.Product_Lexorder" "HOL-Library.Log_Nat"
begin

section \<open>Values, errors and tables\<close>

text \<open>
  The notebook \<^verbatim>\<open>data_preprocessing.ipynb\<close> reads three tables of \<^verbatim>\<open>compas.db\<close>
  (\<^verbatim>\<open>casearrest\<close>, \<^verbatim>\<open>people\<close>, \<^verbatim>\<open>compas\<close>) into pandas frames, derives the person
  table and three bin tables from them and writes the four as csv files.

  A cell of a frame is null (\<^verbatim>\<open>None\<close>, \<^verbatim>\<open>NaN\<close>, \<^verbatim>\<open>pd.NA\<close>), an integer, a float or a string.
  A float is modelled by the rational number it denotes. pandas gives a column one type and
  holds the integers of a column that also has a null or a float as floats (4 as 4.0); the
  model keeps the kind each value has where it is produced, so that an integer cell of the
  model can stand for the float of the same value in the frame.
\<close>

datatype cell = Null | I int | F rat | S string

text \<open>The exceptions that the statements of the notebook can raise; any of them aborts the run.\<close>

datatype error = AttributeError | ValueError | TypeError | KeyError | OverflowError

text \<open>
  A row of \<^verbatim>\<open>casearrest\<close>: the columns the notebook reads. The key columns of all three
  tables (\<^verbatim>\<open>person_id\<close>, \<^verbatim>\<open>id\<close>, \<^verbatim>\<open>compas_assessment_id\<close>) are integer keys of the
  database and never null; \<^verbatim>\<open>type_of_assessment\<close> is a string.
\<close>

record arrest =
  arrest_person_id :: int
  arrest_date :: "string option"

text \<open>
  A row of \<^verbatim>\<open>people\<close>: \<^verbatim>\<open>id\<close> (renamed \<^verbatim>\<open>person_id\<close> by the notebook), \<^verbatim>\<open>dob\<close>,
  \<^verbatim>\<open>sex\<close>, \<^verbatim>\<open>age\<close>, and in \<open>other\<close> the cells of the columns that the notebook neither reads
  nor drops (their names are a parameter, \<open>people_columns\<close> below). The columns that the
  notebook drops without reading them are left out.
\<close>

record person =
  person_id :: int
  dob :: "string option"
  sex :: "string option"
  age :: cell
  other :: "cell list"

text \<open>A row of \<^verbatim>\<open>compas\<close>, restricted to the columns that the notebook keeps or sorts by.\<close>

record assessment =
  compas_person_id :: int
  compas_assessment_id :: int
  type_of_assessment :: string
  raw_score :: cell
  decile_score :: cell
  score_text :: cell
  marital_status :: cell
  rec_supervision_level :: cell

text \<open>\<^verbatim>\<open>dfd\<close>: the tables read from the database.\<close>

record dfd =
  casearrest :: "arrest list"
  people_columns :: "string list"
  people :: "person list"
  compas :: "assessment list"

text \<open>
  A frame as pandas holds it: the index labels of its rows and its named columns, each column
  with one cell for every row.
\<close>

record frame =
  index :: "nat list"
  cols :: "(string \<times> cell list) list"

text \<open>Running a fallible function over a list, stopping at the first exception.\<close>

fun traverse :: "('a \<Rightarrow> error + 'b) \<Rightarrow> 'a list \<Rightarrow> error + 'b list" where
  "traverse f [] = Inr []"
| "traverse f (x # xs) =
     (case f x of
        Inl e \<Rightarrow> Inl e
      | Inr y \<Rightarrow> (case traverse f xs of Inl e \<Rightarrow> Inl e | Inr ys \<Rightarrow> Inr (y # ys)))"

section \<open>Python strings and numbers\<close>

text \<open>Strings are ASCII. \<^verbatim>\<open>x.split(' ')[0]\<close>: the text before the first space.\<close>

definition first_word :: "string \<Rightarrow> string" where
  "first_word x = takeWhile (\<lambda>c. c \<noteq> CHR '' '') x"

text \<open>\<^verbatim>\<open>s.split(sep)\<close> for a separator of one character.\<close>

fun split_on :: "char \<Rightarrow> string \<Rightarrow> string list" where
  "split_on sep [] = [[]]"
| "split_on sep (c # cs) =
     (if c = sep then [] # split_on sep cs
      else (case split_on sep cs of
              [] \<Rightarrow> [[c]]
            | w # ws \<Rightarrow> (c # w) # ws))"

definition is_digit :: "char \<Rightarrow> bool" where
  "is_digit c = (CHR ''0'' \<le> c \<and> c \<le> CHR ''9'')"

definition digit_val :: "char \<Rightarrow> int" where
  "digit_val c = int (of_char c) - 48"

definition digits_val :: "string \<Rightarrow> int" where
  "digits_val cs = foldl (\<lambda>n c. 10 * n + digit_val c) 0 cs"

text \<open>\<^verbatim>\<open>round(x)\<close> of a float: to the nearest integer, a tie to the even one.\<close>

definition py_round :: "rat \<Rightarrow> int" where
  "py_round x =
     (let f = \<lfloor>x\<rfloor>; d = x - of_int f
      in if d < 1 / 2 then f
         else if 1 / 2 < d then f + 1
         else if even f then f else f + 1)"

section \<open>Dates: \<^verbatim>\<open>datetime.strptime\<close> and the difference in days\<close>

definition is_leap :: "int \<Rightarrow> bool" where
  "is_leap year = (year mod 4 = 0 \<and> (year mod 100 \<noteq> 0 \<or> year mod 400 = 0))"

definition days_before_year :: "int \<Rightarrow> int" where
  "days_before_year year =
     (let y = year - 1 in y * 365 + y div 4 - y div 100 + y div 400)"

definition days_in_month :: "int \<Rightarrow> int \<Rightarrow> int" where
  "days_in_month year month =
     (if month = 2 \<and> is_leap year then 29
      else [31, 28, 31, 30, 31, 30, 31, 31, 30, 31, 30, 31] ! nat (month - 1))"

definition days_before_month :: "int \<Rightarrow> int \<Rightarrow> int" where
  "days_before_month year month =
     [0, 31, 59, 90, 120, 151, 181, 212, 243, 273, 304, 334] ! nat (month - 1)
       + (if 2 < month \<and> is_leap year then 1 else 0)"

text \<open>The proleptic Gregorian ordinal of a date; both functions are called with a month in 1..12 only.\<close>

definition ymd2ord :: "int \<times> int \<times> int \<Rightarrow> int" where
  "ymd2ord date =
     (case date of (year, month, day) \<Rightarrow>
        days_before_year year + days_before_month year month + day)"

text \<open>
  The fields that the directives \<^verbatim>\<open>%Y\<close>, \<^verbatim>\<open>%m\<close> and \<^verbatim>\<open>%d\<close> accept: four digits;
  \<^verbatim>\<open>1[0-2]|0[1-9]|[1-9]\<close>; \<^verbatim>\<open>3[01]|[12]\d|0[1-9]|[1-9]| [1-9]\<close>.
\<close>

definition year_field :: "string \<Rightarrow> bool" where
  "year_field w = (length w = 4 \<and> list_all is_digit w)"

definition month_field :: "string \<Rightarrow> bool" where
  "month_field w =
     ((length w = 1 \<or> length w = 2) \<and> list_all is_digit w
        \<and> 1 \<le> digits_val w \<and> digits_val w \<le> 12)"

definition day_field :: "string \<Rightarrow> bool" where
  "day_field w =
     (((length w = 1 \<or> length w = 2) \<and> list_all is_digit w
         \<and> 1 \<le> digits_val w \<and> digits_val w \<le> 31)
      \<or> (length w = 2 \<and> hd w = CHR '' '' \<and> is_digit (last w) \<and> 1 \<le> digit_val (last w)))"

text \<open>
  \<^verbatim>\<open>datetime.strptime(s, "%Y-%m-%d")\<close>: the whole string has to match, the year is at least
  1 and the day exists in the month; everything else is a \<^verbatim>\<open>ValueError\<close>. The result is the
  date (the time of day is midnight).
\<close>

definition strptime :: "string \<Rightarrow> error + (int \<times> int \<times> int)" where
  "strptime s =
     (case split_on CHR ''-'' s of
        [yw, mw, dw] \<Rightarrow>
          if year_field yw \<and> month_field mw \<and> day_field dw then
            (let year = digits_val yw; month = digits_val mw;
                 day = digits_val (dropWhile (\<lambda>c. c = CHR '' '') dw)
             in if year < 1 \<or> days_in_month year month < day then Inl ValueError
                else Inr (year, month, day))
          else Inl ValueError
      | _ \<Rightarrow> Inl ValueError)"

section \<open>Age at first arrest\<close>

text \<open>
  \<^verbatim>\<open>time_diff(s1, s2, s3)\<close>. The quotient \<^verbatim>\<open>days / 365.25\<close> is a float division; the model
  divides exactly. The exact quotient is never within \<open>1 / 2922\<close> of a tie (lemma
  \<open>quotient_off_tie\<close> below) and the float quotient of two numbers of this size differs
  from it by less than \<open>10\<^sup>-\<^sup>9\<close>, so both round to the same integer.
\<close>

definition time_diff :: "string \<Rightarrow> string \<Rightarrow> cell \<Rightarrow> error + cell" where
  "time_diff s1 s2 s3 =
     (if s2 = ''No_arrest'' then Inr s3
      else (case strptime s1 of
              Inl e \<Rightarrow> Inl e
            | Inr d1 \<Rightarrow>
                (case strptime s2 of
                   Inl e \<Rightarrow> Inl e
                 | Inr d2 \<Rightarrow>
                     Inr (I (py_round (of_int (ymd2ord d2 - ymd2ord d1) / (36525 / 100)))))))"

text \<open>
  \<^verbatim>\<open>sort_values('arrest_date')\<close>: ascending, nulls last. The sort of pandas is not stable
  here; only the first non-null date of each person is used below, and that does not depend
  on the order among equal dates.
\<close>

definition nulls_last :: "string option \<Rightarrow> nat \<times> string" where
  "nulls_last v = (case v of None \<Rightarrow> (1, []) | Some s \<Rightarrow> (0, s))"

definition sort_values_arrest_date :: "arrest list \<Rightarrow> arrest list" where
  "sort_values_arrest_date ca = sort_key (\<lambda>a. nulls_last (arrest_date a)) ca"

text \<open>\<^verbatim>\<open>groupby(key).first()\<close>: for every key, in ascending order, the first value that is not null.\<close>

fun first_valid :: "'a option list \<Rightarrow> 'a option" where
  "first_valid [] = None"
| "first_valid (None # vs) = first_valid vs"
| "first_valid (Some v # vs) = Some v"

definition groupby_first :: "('k::linorder \<times> 'v option) list \<Rightarrow> ('k \<times> 'v option) list" where
  "groupby_first kvs =
     map (\<lambda>k. (k, first_valid (map snd (filter (\<lambda>kv. fst kv = k) kvs))))
       (sort (remdups (map fst kvs)))"

definition first_arrest :: "arrest list \<Rightarrow> (int \<times> string option) list" where
  "first_arrest ca =
     groupby_first (map (\<lambda>a. (arrest_person_id a, arrest_date a)) (sort_values_arrest_date ca))"

text \<open>
  The column \<^verbatim>\<open>arrest_date\<close> of \<^verbatim>\<open>ext_people\<close> after the left merge with
  \<^verbatim>\<open>first_arrest\<close>, \<^verbatim>\<open>fillna("No_arrest")\<close>, \<^verbatim>\<open>astype(str)\<close> and the split at the first space.
\<close>

definition arrest_date_of :: "(int \<times> string option) list \<Rightarrow> person \<Rightarrow> string" where
  "arrest_date_of fa p =
     first_word (case map_of fa (person_id p) of
                   Some (Some s) \<Rightarrow> s
                 | _ \<Rightarrow> ''No_arrest'')"

text \<open>\<^verbatim>\<open>ext_people['dob'].apply(lambda x: x.split(' ')[0])\<close>; a null has no \<^verbatim>\<open>split\<close>.\<close>

definition dob_date :: "person \<Rightarrow> error + string" where
  "dob_date p = (case dob p of None \<Rightarrow> Inl AttributeError | Some x \<Rightarrow> Inr (first_word x))"

text \<open>The column \<^verbatim>\<open>age_at_first_arrest\<close>: first every \<^verbatim>\<open>dob\<close> is cut, then \<^verbatim>\<open>time_diff\<close> runs row by row.\<close>

definition age_at_first_arrest :: "arrest list \<Rightarrow> person list \<Rightarrow> error + cell list" where
  "age_at_first_arrest ca ps =
     (case traverse dob_date ps of
        Inl e \<Rightarrow> Inl e
      | Inr dobs \<Rightarrow>
          traverse (\<lambda>(p, d). time_diff d (arrest_date_of (first_arrest ca) p) (age p))
            (zip ps dobs))"

section \<open>The first screening and the pivot\<close>

text \<open>\<^verbatim>\<open>compas_df[compas_df["score_text"] != "N/A"]\<close>; a null differs from \<^verbatim>\<open>"N/A"\<close> and stays.\<close>

definition valid_scores :: "assessment list \<Rightarrow> assessment list" where
  "valid_scores cs = filter (\<lambda>r. score_text r \<noteq> S ''N/A'') cs"

text \<open>\<^verbatim>\<open>sort_values(by=['person_id', 'compas_assessment_id'])\<close>: a stable sort by both keys.\<close>

definition compas_df_sorted :: "assessment list \<Rightarrow> assessment list" where
  "compas_df_sorted cs =
     sort_key (\<lambda>r. (compas_person_id r, compas_assessment_id r)) (valid_scores cs)"

definition first_screening :: "assessment list \<Rightarrow> (int \<times> int option) list" where
  "first_screening cs =
     groupby_first
       (map (\<lambda>r. (compas_person_id r, Some (compas_assessment_id r))) (compas_df_sorted cs))"

text \<open>
  The inner merge of the sorted frame with \<^verbatim>\<open>first_screening[['person_id',
  'compas_assessment_id']]\<close> on both columns: the right keys are unique, so the merge keeps
  the rows of the left frame that have a partner, in their order.
\<close>

definition first_screening_df :: "assessment list \<Rightarrow> assessment list" where
  "first_screening_df cs =
     filter (\<lambda>r. (compas_person_id r, Some (compas_assessment_id r)) \<in> set (first_screening cs))
       (compas_df_sorted cs)"

text \<open>
  \<^verbatim>\<open>pivot(index='person_id', columns='type_of_assessment', values=['raw_score',
  'decile_score', 'score_text'])\<close>. Two rows with the same person and type raise a
  \<^verbatim>\<open>ValueError\<close>. The index holds the persons in ascending order; there is one column for
  every value column and every type, the types in ascending order; a person without a row of
  a type has a null there.
\<close>

definition score_columns :: "(string \<times> (assessment \<Rightarrow> cell)) list" where
  "score_columns =
     [(''raw_score'', raw_score), (''decile_score'', decile_score), (''score_text'', score_text)]"

definition pivot_cell :: "assessment list \<Rightarrow> (assessment \<Rightarrow> cell) \<Rightarrow> string \<Rightarrow> int \<Rightarrow> cell" where
  "pivot_cell fsd v t p =
     (case find (\<lambda>r. compas_person_id r = p \<and> type_of_assessment r = t) fsd of
        None \<Rightarrow> Null
      | Some r \<Rightarrow> v r)"

record pivoted =
  pivot_index :: "int list"
  pivot_cols :: "((string \<times> string) \<times> cell list) list"

definition pivot :: "assessment list \<Rightarrow> error + pivoted" where
  "pivot fsd =
     (if distinct (map (\<lambda>r. (compas_person_id r, type_of_assessment r)) fsd) then
        (let idx = sort (remdups (map compas_person_id fsd));
             types = sort (remdups (map type_of_assessment fsd))
         in Inr \<lparr>pivot_index = idx,
                 pivot_cols =
                   concat (map (\<lambda>(vn, v). map (\<lambda>t. ((vn, t), map (pivot_cell fsd v t) idx)) types)
                             score_columns)\<rparr>)
      else Inl ValueError)"

text \<open>\<^verbatim>\<open>str.strip()\<close>, \<^verbatim>\<open>str.replace(old, new)\<close>, \<^verbatim>\<open>str.lower()\<close> and \<^verbatim>\<open>sub in s\<close> on ASCII strings.\<close>

definition py_isspace :: "char \<Rightarrow> bool" where
  "py_isspace c = (of_char c \<in> set [9, 10, 11, 12, 13, 28, 29, 30, 31, 32 :: nat])"

definition strip :: "string \<Rightarrow> string" where
  "strip s = rev (dropWhile py_isspace (rev (dropWhile py_isspace s)))"

function str_replace :: "string \<Rightarrow> string \<Rightarrow> string \<Rightarrow> string" where
  "str_replace old new [] = (if old = [] then new else [])"
| "str_replace old new (c # cs) =
     (if old = [] then new @ c # str_replace old new cs
      else if take (length old) (c # cs) = old
        then new @ str_replace old new (drop (length old) (c # cs))
      else c # str_replace old new cs)"
  by pat_completeness auto
termination
  by (relation "measure (\<lambda>(old, new, s). length s)") auto

definition lower :: "string \<Rightarrow> string" where
  "lower s =
     map (\<lambda>c. if CHR ''A'' \<le> c \<and> c \<le> CHR ''Z'' then char_of (of_char c + (32 :: nat)) else c) s"

fun contains :: "string \<Rightarrow> string \<Rightarrow> bool" where
  "contains sub [] = (sub = [])"
| "contains sub (c # cs) = (take (length sub) (c # cs) = sub \<or> contains sub cs)"

text \<open>\<^verbatim>\<open>'_'.join(col).strip().replace(' ', '_').lower()\<close> for a column \<^verbatim>\<open>(value, type)\<close>.\<close>

definition flat_name :: "string \<times> string \<Rightarrow> string" where
  "flat_name col = lower (str_replace '' '' ''_'' (strip (fst col @ ''_'' @ snd col)))"

text \<open>
  \<^verbatim>\<open>pivoted_df\<close> after its columns have been renamed and \<^verbatim>\<open>reset_index\<close> has made the
  index the column \<^verbatim>\<open>person_id\<close>: the persons, and the named columns.
\<close>

definition pivoted_df :: "assessment list \<Rightarrow> error + int list \<times> (string \<times> cell list) list" where
  "pivoted_df fsd =
     (case pivot fsd of
        Inl e \<Rightarrow> Inl e
      | Inr pv \<Rightarrow> Inr (pivot_index pv, map (\<lambda>(col, vs). (flat_name col, vs)) (pivot_cols pv)))"

text \<open>\<^verbatim>\<open>drop_duplicates(subset='person_id')\<close>: the first row of every person.\<close>

fun drop_duplicates :: "int list \<Rightarrow> assessment list \<Rightarrow> assessment list" where
  "drop_duplicates seen [] = []"
| "drop_duplicates seen (r # rs) =
     (if compas_person_id r \<in> set seen then drop_duplicates seen rs
      else r # drop_duplicates (compas_person_id r # seen) rs)"

text \<open>
  \<^verbatim>\<open>final_df\<close>: the inner merge on \<^verbatim>\<open>person_id\<close> of \<^verbatim>\<open>other_columns\<close> with
  \<^verbatim>\<open>pivoted_df\<close>. Its keys are the persons and its columns are \<^verbatim>\<open>marital_status\<close>,
  \<^verbatim>\<open>rec_supervision_level\<close> and the pivoted columns (the column \<^verbatim>\<open>id\<close>, which the notebook
  drops after the next merge, is left out).
\<close>

definition lookup :: "('k \<times> cell) list \<Rightarrow> 'k \<Rightarrow> cell" where
  "lookup kvs k = (case map_of kvs k of None \<Rightarrow> Null | Some v \<Rightarrow> v)"

definition final_df ::
  "assessment list \<Rightarrow> int list \<times> (string \<times> cell list) list
     \<Rightarrow> int list \<times> (string \<times> cell list) list" where
  "final_df fsd pdf =
     (let other_columns =
            filter (\<lambda>r. compas_person_id r \<in> set (fst pdf)) (drop_duplicates [] fsd);
          keys = map compas_person_id other_columns
      in (keys,
          [(''marital_status'', map marital_status other_columns),
           (''rec_supervision_level'', map rec_supervision_level other_columns)]
          @ map (\<lambda>(c, vs). (c, map (lookup (zip (fst pdf) vs)) keys)) (snd pdf)))"

text \<open>
  \<^verbatim>\<open>ext_people\<close> at the end of the fourth code cell: the columns of \<^verbatim>\<open>people\<close> that are
  left, \<^verbatim>\<open>age_at_first_arrest\<close>, and the columns of \<^verbatim>\<open>final_df\<close> joined by a left merge on
  \<^verbatim>\<open>person_id\<close> (a person without a partner has nulls there). The rows are the rows of
  \<^verbatim>\<open>people\<close>, labelled by their position.
\<close>

definition sex_cell :: "person \<Rightarrow> cell" where
  "sex_cell p = (case sex p of None \<Rightarrow> Null | Some s \<Rightarrow> S s)"

definition other_cell :: "nat \<Rightarrow> person \<Rightarrow> cell" where
  "other_cell k p = (if k < length (other p) then other p ! k else Null)"

definition ext_people :: "dfd \<Rightarrow> cell list \<Rightarrow> int list \<times> (string \<times> cell list) list \<Rightarrow> frame" where
  "ext_people d ages fdf =
     \<lparr>index = [0..<length (people d)],
      cols =
        [(''sex'', map sex_cell (people d)), (''age'', map age (people d))]
        @ map (\<lambda>(k, c). (c, map (other_cell k) (people d))) (enumerate 0 (people_columns d))
        @ [(''age_at_first_arrest'', ages)]
        @ map (\<lambda>(c, vs). (c, map (\<lambda>p. lookup (zip (fst fdf) vs) (person_id p)) (people d)))
            (snd fdf)\<rparr>"

section \<open>Renaming and retyping the columns\<close>

text \<open>The dictionary \<^verbatim>\<open>repl\<close>, in the order of its entries, which is the order of the loop.\<close>

definition repl :: "(string \<times> string) list" where
  "repl =
     [(''raw_score'', ''rs''),
      (''decile_score'', ''ds''),
      (''rec_supervision_level'', ''slevel''),
      (''risk_of_failure_to_appear'', ''fta''),
      (''risk_of_recidivism'', ''grecid''),
      (''risk_of_violence'', ''vrecid''),
      (''score_text_fta'', ''fta_text''),
      (''score_text_grecid'', ''grecid_text''),
      (''score_text_vrecid'', ''vrecid_text''),
      (''sex'', ''male'')]"

text \<open>\<^verbatim>\<open>for k in repl: ext_people.columns = ext_people.columns.str.replace(k, repl[k])\<close>.\<close>

definition rename_columns :: "(string \<times> string) list \<Rightarrow> string list \<Rightarrow> string list" where
  "rename_columns rs names = foldl (\<lambda>ns (k, v). map (str_replace k v) ns) names rs"

text \<open>
  A float (binary64) value: finite, plus or minus infinity, or not a number.
  \<open>binary_exponent x\<close> is \<open>\<lfloor>log\<^sub>2 \<bar>x\<bar>\<rfloor>\<close>. \<open>to_double\<close> rounds a rational number to the nearest
  float, a tie to the even significand; a result of \<open>2\<^sup>1\<^sup>0\<^sup>2\<^sup>4\<close> or more in absolute value is
  infinite.
\<close>

datatype float = Fin rat | PInf | NInf | NaN

definition pow2 :: "int \<Rightarrow> rat" where
  "pow2 k = (if 0 \<le> k then 2 ^ nat k else 1 / 2 ^ nat (- k))"

definition binary_exponent :: "rat \<Rightarrow> int" where
  "binary_exponent x =
     (case quotient_of \<bar>x\<bar> of (a, b) \<Rightarrow>
        (let k = int (floorlog 2 (nat a)) - int (floorlog 2 (nat b))
         in if pow2 k \<le> \<bar>x\<bar> then k else k - 1))"

definition to_double :: "rat \<Rightarrow> float" where
  "to_double x =
     (if x = 0 then Fin 0
      else (let s = max (binary_exponent x - 52) (- 1074);
                r = of_int (py_round (x / pow2 s)) * pow2 s
            in if 1024 \<le> binary_exponent r then (if 0 < x then PInf else NInf) else Fin r))"

text \<open>
  The digits of a numeric literal: digits, with single underscores between digits.
\<close>

definition digitpart :: "string \<Rightarrow> bool" where
  "digitpart w =
     (w \<noteq> [] \<and> list_all (\<lambda>c. is_digit c \<or> c = CHR ''_'') w
        \<and> is_digit (hd w) \<and> is_digit (last w) \<and> \<not> contains ''__'' w)"

definition digitpart_val :: "string \<Rightarrow> int" where
  "digitpart_val w = digits_val (filter is_digit w)"

definition signed :: "string \<Rightarrow> bool \<times> string" where
  "signed t =
     (case t of
        [] \<Rightarrow> (False, [])
      | c # r \<Rightarrow> if c = CHR ''-'' then (True, r) else if c = CHR ''+'' then (False, r)
                 else (False, t))"

text \<open>\<^verbatim>\<open>int(s)\<close> for a string.\<close>

definition py_int :: "string \<Rightarrow> error + int" where
  "py_int s =
     (case signed (strip s) of (neg, body) \<Rightarrow>
        if digitpart body
        then Inr (if neg then - digitpart_val body else digitpart_val body)
        else Inl ValueError)"

text \<open>\<^verbatim>\<open>float(s)\<close> for a string.\<close>

definition mantissa :: "string \<Rightarrow> rat option" where
  "mantissa m =
     (let ip = takeWhile (\<lambda>c. c \<noteq> CHR ''.'') m; rest = dropWhile (\<lambda>c. c \<noteq> CHR ''.'') m
      in case rest of
           [] \<Rightarrow> if digitpart ip then Some (of_int (digitpart_val ip)) else None
         | _ # fp \<Rightarrow>
             if (ip = [] \<or> digitpart ip) \<and> (fp = [] \<or> digitpart fp) \<and> \<not> (ip = [] \<and> fp = [])
             then Some (of_int (digitpart_val ip)
                        + of_int (digitpart_val fp) / 10 ^ length (filter is_digit fp))
             else None)"

definition exponent :: "string \<Rightarrow> int option" where
  "exponent e =
     (case e of
        [] \<Rightarrow> Some 0
      | _ # ex \<Rightarrow>
          (case signed ex of (neg, body) \<Rightarrow>
             if digitpart body
             then Some (if neg then - digitpart_val body else digitpart_val body)
             else None))"

definition pow10 :: "int \<Rightarrow> rat" where
  "pow10 k = (if 0 \<le> k then 10 ^ nat k else 1 / 10 ^ nat (- k))"

definition py_float :: "string \<Rightarrow> error + float" where
  "py_float s =
     (case signed (strip s) of (neg, body) \<Rightarrow>
        if lower body = ''nan'' then Inr NaN
        else if lower body = ''inf'' \<or> lower body = ''infinity''
        then Inr (if neg then NInf else PInf)
        else (let is_e = (\<lambda>c. c = CHR ''e'' \<or> c = CHR ''E'')
              in case (mantissa (takeWhile (\<lambda>c. \<not> is_e c) body),
                       exponent (dropWhile (\<lambda>c. \<not> is_e c) body)) of
                   (Some m, Some e) \<Rightarrow> Inr (to_double ((if neg then - m else m) * pow10 e))
                 | _ \<Rightarrow> Inl ValueError))"

text \<open>
  \<^verbatim>\<open>astype(float)\<close> on a cell of an object column: a null becomes \<^verbatim>\<open>NaN\<close>, an integer is
  rounded to a float (too large a one raises), a string is parsed.
\<close>

definition astype_float :: "cell \<Rightarrow> error + float" where
  "astype_float v =
     (case v of
        Null \<Rightarrow> Inr NaN
      | I n \<Rightarrow> (case to_double (of_int n) of Fin x \<Rightarrow> Inr (Fin x) | _ \<Rightarrow> Inl OverflowError)
      | F x \<Rightarrow> Inr (Fin x)
      | S s \<Rightarrow> py_float s)"

text \<open>
  \<^verbatim>\<open>astype(pd.Int64Dtype())\<close> on a float column, as pandas 2.2 does it (the notebook sets
  an option that exists from this version on). The cast looks at the column as a whole:

    \<^item> \<^verbatim>\<open>NaN\<close> is masked and becomes \<^verbatim>\<open><NA>\<close>; a column of \<^verbatim>\<open>NaN\<close> only, or an empty one,
      passes.
    \<^item> \<^verbatim>\<open>int\<close> is applied to the largest value that is not \<^verbatim>\<open>NaN\<close>
      (\<^verbatim>\<open>values[np.nanargmax(values)]\<close>); on an infinity this raises \<^verbatim>\<open>OverflowError\<close>.
    \<^item> If the largest value has a fractional part, the column is cast as Python objects:
      \<^verbatim>\<open>int\<close> truncates each value, which raises \<^verbatim>\<open>OverflowError\<close> on minus infinity and on a
      value whose integer part does not fit 64 bits; otherwise the truncated column
      differs from the column, at its largest value, and the cast raises
      \<^verbatim>\<open>TypeError: cannot safely cast non-equivalent object to int64\<close>.
    \<^item> If the largest value is a whole number, the floats are cast to 64-bit integers and
      have to be equal to the result, or the cast raises
      \<^verbatim>\<open>TypeError: cannot safely cast non-equivalent float64 to int64\<close>. (The cast of a float
      outside 64 bits depends on the processor; the model follows x86-64, where the
      comparison fails.)
\<close>

definition finite_values :: "float list \<Rightarrow> rat list" where
  "finite_values xs = concat (map (\<lambda>x. case x of Fin q \<Rightarrow> [q] | _ \<Rightarrow> []) xs)"

definition trunc :: "rat \<Rightarrow> int" where
  "trunc q = (if 0 \<le> q then \<lfloor>q\<rfloor> else \<lceil>q\<rceil>)"

definition fits_int64 :: "int \<Rightarrow> bool" where
  "fits_int64 n \<longleftrightarrow> - (2 ^ 63) \<le> n \<and> n < 2 ^ 63"

definition whole :: "rat \<Rightarrow> bool" where
  "whole q \<longleftrightarrow> of_int \<lfloor>q\<rfloor> = q"

definition astype_Int64 :: "float list \<Rightarrow> error + cell list" where
  "astype_Int64 xs =
     (let qs = finite_values xs
      in if PInf \<in> set xs \<or> (NInf \<in> set xs \<and> qs = []) then Inl OverflowError
         else if qs = [] then Inr (map (\<lambda>x. Null) xs)
         else if \<not> whole (Max (set qs))
         then (if NInf \<in> set xs \<or> list_ex (\<lambda>q. \<not> fits_int64 (trunc q)) qs
               then Inl OverflowError else Inl TypeError)
         else if NInf \<in> set xs \<or> list_ex (\<lambda>q. \<not> (whole q \<and> fits_int64 \<lfloor>q\<rfloor>)) qs
         then Inl TypeError
         else Inr (map (\<lambda>x. case x of Fin q \<Rightarrow> I \<lfloor>q\<rfloor> | _ \<Rightarrow> Null) xs))"

text \<open>\<^verbatim>\<open>ext_people[c].astype(float).astype(pd.Int64Dtype())\<close> for one column.\<close>

definition ds_column :: "cell list \<Rightarrow> error + cell list" where
  "ds_column vs =
     (case traverse astype_float vs of
        Inl e \<Rightarrow> Inl e
      | Inr xs \<Rightarrow> astype_Int64 xs)"

text \<open>The loop over the columns: those with \<^verbatim>\<open>'ds_' in c\<close> are converted, in their order.\<close>

definition ds_columns :: "(string \<times> cell list) list \<Rightarrow> error + (string \<times> cell list) list" where
  "ds_columns cs =
     traverse (\<lambda>(c, vs). if contains ''ds_'' c
                          then (case ds_column vs of Inl e \<Rightarrow> Inl e | Inr ws \<Rightarrow> Inr (c, ws))
                          else Inr (c, vs)) cs"

text \<open>\<^verbatim>\<open>replace(r_dict)\<close> with \<^verbatim>\<open>r_dict = {"Male" : 1, "Female" : 0}\<close>.\<close>

definition replace_r_dict :: "cell \<Rightarrow> cell" where
  "replace_r_dict v = (if v = S ''Male'' then I 1 else if v = S ''Female'' then I 0 else v)"

text \<open>
  \<^verbatim>\<open>astype("int64")\<close> on a cell of an object column: \<^verbatim>\<open>int\<close> is applied to it. The null of
  a string column is \<^verbatim>\<open>None\<close>, which \<^verbatim>\<open>int\<close> rejects with a \<^verbatim>\<open>TypeError\<close>; a float is
  truncated; the result has to fit 64 bits.
\<close>

definition int64 :: "int \<Rightarrow> error + cell" where
  "int64 n = (if - (2 ^ 63) \<le> n \<and> n < 2 ^ 63 then Inr (I n) else Inl OverflowError)"

definition astype_int64 :: "cell \<Rightarrow> error + cell" where
  "astype_int64 v =
     (case v of
        Null \<Rightarrow> Inl TypeError
      | I n \<Rightarrow> int64 n
      | F x \<Rightarrow> int64 (if 0 \<le> x then \<lfloor>x\<rfloor> else \<lceil>x\<rceil>)
      | S s \<Rightarrow> (case py_int s of Inl e \<Rightarrow> Inl e | Inr n \<Rightarrow> int64 n))"

text \<open>
  \<^verbatim>\<open>ext_people["male"] = ext_people["male"].replace(r_dict)\<close> and then
  \<^verbatim>\<open>ext_people["male"] = ext_people["male"].astype("int64")\<close>; without a column of this
  name the lookup raises a \<^verbatim>\<open>KeyError\<close>.
\<close>

definition male_column :: "(string \<times> cell list) list \<Rightarrow> error + (string \<times> cell list) list" where
  "male_column cs =
     (if ''male'' \<in> set (map fst cs) then
        traverse (\<lambda>(c, vs). if c = ''male''
                             then (case traverse astype_int64 (map replace_r_dict vs) of
                                     Inl e \<Rightarrow> Inl e
                                   | Inr ws \<Rightarrow> Inr (c, ws))
                             else Inr (c, vs)) cs
      else Inl KeyError)"

section \<open>The bin tables and the files written\<close>

text \<open>\<^verbatim>\<open>dropna()\<close>: the rows without a null in any column, with their labels.\<close>

definition dropna :: "frame \<Rightarrow> frame" where
  "dropna f =
     (let keep = filter (\<lambda>j. list_all (\<lambda>(c, vs). vs ! j \<noteq> Null) (cols f)) [0..<length (index f)]
      in \<lparr>index = map (\<lambda>j. index f ! j) keep,
          cols = map (\<lambda>(c, vs). (c, map (\<lambda>j. vs ! j) keep)) (cols f)\<rparr>)"

text \<open>
  \<^verbatim>\<open>df[df["type_of_assessment"] == t][["raw_score", "decile_score", "score_text"]].dropna()\<close>
  with \<^verbatim>\<open>df = df[df["score_text"] != "N/A"]\<close>. The rows are labelled by their position in
  the selection (the labels are not written). A cell is the value that its row holds; how
  a number is written is not modelled: pandas holds the integers of a column that also
  has a null or a float as floats of the same value, and writes 4 as \<^verbatim>\<open>4.0\<close> there.
\<close>

definition bins :: "string \<Rightarrow> assessment list \<Rightarrow> frame" where
  "bins t cs =
     (let rows = filter (\<lambda>r. type_of_assessment r = t) (valid_scores cs)
      in dropna \<lparr>index = [0..<length rows],
                 cols = map (\<lambda>(vn, v). (vn, map v rows)) score_columns\<rparr>)"

record files =
  compas_csv :: frame
  fta_bins_csv :: frame
  grecid_bins_csv :: frame
  vrecid_bins_csv :: frame

text \<open>
  The person table before the last \<^verbatim>\<open>dropna\<close>: code cells three to five. An exception
  anywhere aborts the run before a file is written.
\<close>

definition person_table :: "dfd \<Rightarrow> error + frame" where
  "person_table d =
     (case age_at_first_arrest (casearrest d) (people d) of
        Inl e \<Rightarrow> Inl e
      | Inr ages \<Rightarrow>
          (let fsd = first_screening_df (compas d)
           in case pivoted_df fsd of
                Inl e \<Rightarrow> Inl e
              | Inr pdf \<Rightarrow>
                  (let f = ext_people d ages (final_df fsd pdf);
                       renamed = zip (rename_columns repl (map fst (cols f))) (map snd (cols f))
                   in case ds_columns renamed of
                        Inl e \<Rightarrow> Inl e
                      | Inr cs \<Rightarrow>
                          (case male_column cs of
                             Inl e \<Rightarrow> Inl e
                           | Inr cs' \<Rightarrow> Inr (f\<lparr>cols := cs'\<rparr>)))))"

text \<open>The whole notebook: the four frames that are written.\<close>

definition run :: "dfd \<Rightarrow> error + files" where
  "run d =
     (case person_table d of
        Inl e \<Rightarrow> Inl e
      | Inr f \<Rightarrow>
          Inr \<lparr>compas_csv = dropna f,
               fta_bins_csv = bins ''Risk of Failure to Appear'' (compas d),
               grecid_bins_csv = bins ''Risk of Recidivism'' (compas d),
               vrecid_bins_csv = bins ''Risk of Violence'' (compas d)\<rparr>)"

section \<open>A small database\<close>

text \<open>
  Two persons. The first has one arrest, a first assessment whose only row has the score
  text \<^verbatim>\<open>N/A\<close>, and a second assessment with all three types. The second has no arrest
  and a single row, of one type.
\<close>

definition example_db :: dfd where
  "example_db =
     \<lparr>casearrest =
        [\<lparr>arrest_person_id = 1, arrest_date = Some ''2000-01-01 00:00:00.000000''\<rparr>],
      people_columns = [''priors_count''],
      people =
        [\<lparr>person_id = 1, dob = Some ''1980-01-01 00:00:00.000000'', sex = Some ''Male'',
          age = I 40, other = [I 2]\<rparr>,
         \<lparr>person_id = 2, dob = Some ''1981-03-09 00:00:00.000000'', sex = Some ''Female'',
          age = I 35, other = [I 0]\<rparr>],
      compas =
        [\<lparr>compas_person_id = 1, compas_assessment_id = 5,
          type_of_assessment = ''Risk of Violence'', raw_score = Null, decile_score = I (- 1),
          score_text = S ''N/A'', marital_status = S ''Single'', rec_supervision_level = I 1\<rparr>,
         \<lparr>compas_person_id = 1, compas_assessment_id = 7,
          type_of_assessment = ''Risk of Violence'', raw_score = F (16 / 5), decile_score = I 4,
          score_text = S ''Medium'', marital_status = S ''Single'', rec_supervision_level = I 1\<rparr>,
         \<lparr>compas_person_id = 1, compas_assessment_id = 7,
          type_of_assessment = ''Risk of Recidivism'', raw_score = F (11 / 10), decile_score = I 2,
          score_text = S ''Low'', marital_status = S ''Single'', rec_supervision_level = I 1\<rparr>,
         \<lparr>compas_person_id = 1, compas_assessment_id = 7,
          type_of_assessment = ''Risk of Failure to Appear'', raw_score = F 12, decile_score = I 1,
          score_text = S ''Low'', marital_status = S ''Single'', rec_supervision_level = I 1\<rparr>,
         \<lparr>compas_person_id = 2, compas_assessment_id = 9,
          type_of_assessment = ''Risk of Recidivism'', raw_score = F (3 / 2), decile_score = I 3,
          score_text = S ''Low'', marital_status = S ''Married'', rec_supervision_level = I 1\<rparr>]\<rparr>"

text \<open>One person, whose only assessment has a single row, of one type.\<close>

definition one_type_db :: dfd where
  "one_type_db =
     \<lparr>casearrest = [],
      people_columns = [],
      people =
        [\<lparr>person_id = 1, dob = Some ''1980-01-01 00:00:00.000000'', sex = Some ''Male'',
          age = I 40, other = []\<rparr>],
      compas =
        [\<lparr>compas_person_id = 1, compas_assessment_id = 7,
          type_of_assessment = ''Risk of Violence'', raw_score = F (16 / 5), decile_score = I 4,
          score_text = S ''Medium'', marital_status = S ''Single'', rec_supervision_level = I 1\<rparr>]\<rparr>"


text \<open>
  The assessments of two persons: the first has one row of each of the three types, the
  second has two rows of one type in the same assessment.
\<close>

definition duplicate_compas :: "assessment list" where
  "duplicate_compas =
     [\<lparr>compas_person_id = 1, compas_assessment_id = 7,
       type_of_assessment = ''Risk of Violence'', raw_score = F (16 / 5), decile_score = I 4,
       score_text = S ''Medium'', marital_status = S ''Single'', rec_supervision_level = I 1\<rparr>,
      \<lparr>compas_person_id = 1, compas_assessment_id = 7,
       type_of_assessment = ''Risk of Recidivism'', raw_score = F (11 / 10), decile_score = I 2,
       score_text = S ''Low'', marital_status = S ''Single'', rec_supervision_level = I 1\<rparr>,
      \<lparr>compas_person_id = 1, compas_assessment_id = 7,
       type_of_assessment = ''Risk of Failure to Appear'', raw_score = F 12, decile_score = I 1,
       score_text = S ''Low'', marital_status = S ''Single'', rec_supervision_level = I 1\<rparr>,
      \<lparr>compas_person_id = 2, compas_assessment_id = 9,
       type_of_assessment = ''Risk of Violence'', raw_score = F (3 / 2), decile_score = I 3,
       score_text = S ''Low'', marital_status = S ''Married'', rec_supervision_level = I 1\<rparr>,
      \<lparr>compas_person_id = 2, compas_assessment_id = 9,
       type_of_assessment = ''Risk of Violence'', raw_score = F (5 / 2), decile_score = I 5,
       score_text = S ''Medium'', marital_status = S ''Married'', rec_supervision_level = I 1\<rparr>]"

section \<open>Dates as the database writes them\<close>



section \<open>Properties of the age at first arrest\<close>

lemma traverse_Inr_iff:
  "traverse f xs = Inr ys \<longleftrightarrow> list_all2 (\<lambda>x y. f x = Inr y) xs ys"
proof (induction xs arbitrary: ys)
  case Nil
  then show ?case by auto
next
  case (Cons x xs)
  show ?case
  proof (cases "f x")
    case (Inl e)
    then show ?thesis by (auto simp: list_all2_Cons1)
  next
    case fx: (Inr y)
    show ?thesis
    proof (cases "traverse f xs")
      case (Inl e)
      then have "\<not> list_all2 (\<lambda>x y. f x = Inr y) xs zs" for zs
        using Cons.IH [of zs] by simp
      then show ?thesis
        using Inl fx by (auto simp: list_all2_Cons1)
    next
      case (Inr zs)
      then have "list_all2 (\<lambda>x y. f x = Inr y) xs ws \<longleftrightarrow> ws = zs" for ws
        using Cons.IH [of ws] by auto
      then show ?thesis
        using Inr fx by (auto simp: list_all2_Cons1)
    qed
  qed
qed

lemma traverse_length: "traverse f xs = Inr ys \<Longrightarrow> length ys = length xs"
  by (simp add: traverse_Inr_iff list_all2_lengthD)

lemma traverse_nth:
  "traverse f xs = Inr ys \<Longrightarrow> j < length xs \<Longrightarrow> f (xs ! j) = Inr (ys ! j)"
  by (auto simp: traverse_Inr_iff dest: list_all2_nthD)

lemma traverse_Inl:
  "x \<in> set xs \<Longrightarrow> f x = Inl e \<Longrightarrow> \<exists>e'. traverse f xs = Inl e'"
  by (induction xs) (auto split: sum.splits)

lemma map_of_groupby_first:
  "map_of (groupby_first kvs) k =
     (if k \<in> fst ` set kvs then Some (first_valid (map snd (filter (\<lambda>kv. fst kv = k) kvs)))
      else None)"
  by (simp add: groupby_first_def map_of_map_restrict restrict_map_def)

lemma first_word_No_arrest: "first_word ''No_arrest'' = ''No_arrest''"
  by (simp add: first_word_def)

lemma arrest_date_of_no_record:
  assumes "\<forall>a \<in> set ca. arrest_person_id a \<noteq> person_id p"
  shows "arrest_date_of (first_arrest ca) p = ''No_arrest''"
proof -
  have "person_id p \<notin> fst ` set (map (\<lambda>a. (arrest_person_id a, arrest_date a)) (sort_values_arrest_date ca))"
    using assms by (auto simp: sort_values_arrest_date_def)
  then have "map_of (first_arrest ca) (person_id p) = None"
    unfolding first_arrest_def map_of_groupby_first by simp
  then show ?thesis
    by (simp add: arrest_date_of_def first_word_No_arrest)
qed

lemma age_at_first_arrest_nth:
  assumes "age_at_first_arrest ca ps = Inr ages" and "j < length ps"
  shows "\<exists>b. dob (ps ! j) = Some b \<and>
           time_diff (first_word b) (arrest_date_of (first_arrest ca) (ps ! j)) (age (ps ! j))
             = Inr (ages ! j)"
proof -
  from assms(1) obtain dobs where d: "traverse dob_date ps = Inr dobs"
    and t: "traverse (\<lambda>(p, d). time_diff d (arrest_date_of (first_arrest ca) p) (age p))
              (zip ps dobs) = Inr ages"
    by (auto simp: age_at_first_arrest_def split: sum.splits)
  have len: "length dobs = length ps"
    using d by (rule traverse_length)
  have "dob_date (ps ! j) = Inr (dobs ! j)"
    using d assms(2) by (rule traverse_nth)
  then obtain b where b: "dob (ps ! j) = Some b" "dobs ! j = first_word b"
    by (auto simp: dob_date_def split: option.splits)
  have "(\<lambda>(p, d). time_diff d (arrest_date_of (first_arrest ca) p) (age p)) (zip ps dobs ! j)
          = Inr (ages ! j)"
    using t by (rule traverse_nth) (simp add: len assms(2))
  then show ?thesis
    using b len assms(2) by simp
qed

lemma age_at_first_arrest_length:
  "age_at_first_arrest ca ps = Inr ages \<Longrightarrow> length ages = length ps"
  by (auto simp: age_at_first_arrest_def split: sum.splits dest!: traverse_length)

text \<open>
  Claim C2. A person without any row in \<^verbatim>\<open>casearrest\<close> gets the stated \<^verbatim>\<open>age\<close> as
  \<^verbatim>\<open>age_at_first_arrest\<close>, unchanged: \<^verbatim>\<open>time_diff\<close> returns its third argument whatever
  the date of birth is, and so the column holds \<^verbatim>\<open>age\<close> in the row of that person. A stated
  age of 35 gives 35.
\<close>

theorem no_arrest_stated_age:
  assumes "j < length ps"
    and "\<forall>a \<in> set ca. arrest_person_id a \<noteq> person_id (ps ! j)"
  shows "time_diff d (arrest_date_of (first_arrest ca) (ps ! j)) (age (ps ! j)) = Inr (age (ps ! j))
    \<and> (age_at_first_arrest ca ps = Inr ages \<longrightarrow> ages ! j = age (ps ! j))"
proof -
  have na: "arrest_date_of (first_arrest ca) (ps ! j) = ''No_arrest''"
    using assms(2) by (rule arrest_date_of_no_record)
  have row: "time_diff d' (arrest_date_of (first_arrest ca) (ps ! j)) (age (ps ! j))
      = Inr (age (ps ! j))" for d'
    by (simp add: na time_diff_def)
  show ?thesis
    using row age_at_first_arrest_nth [OF _ assms(1), of ca ages] by auto
qed

theorem no_arrest_stated_age_witness:
  "age_at_first_arrest
     [\<lparr>arrest_person_id = 2, arrest_date = Some ''2000-01-01 00:00:00.000000''\<rparr>]
     [\<lparr>person_id = 1, dob = Some ''1981-03-09 00:00:00.000000'', sex = Some ''Male'',
       age = I 35, other = []\<rparr>] = Inr [I 35]
   \<and> time_diff ''1981-03-09''
         (arrest_date_of
            (first_arrest [\<lparr>arrest_person_id = 2, arrest_date = Some ''2000-01-01 00:00:00.000000''\<rparr>])
            \<lparr>person_id = 1, dob = Some ''1981-03-09 00:00:00.000000'', sex = Some ''Male'',
              age = I 35, other = []\<rparr>) (I 35) = Inr (I 35)"
proof -
  let ?ca = "[\<lparr>arrest_person_id = 2, arrest_date = Some ''2000-01-01 00:00:00.000000''\<rparr>]"
  let ?ps = "[\<lparr>person_id = 1, dob = Some ''1981-03-09 00:00:00.000000'', sex = Some ''Male'',
       age = I 35, other = []\<rparr>]"
  have j: "0 < length ?ps" by simp
  have none: "\<forall>a \<in> set ?ca. arrest_person_id a \<noteq> person_id (?ps ! 0)" by simp
  have ages: "age_at_first_arrest ?ca ?ps = Inr [I 35]"
    by code_simp
  show ?thesis
    using no_arrest_stated_age [OF j none, of "''1981-03-09''" "[I 35]"] ages by simp
qed

section \<open>Properties of the first screening\<close>

lemma first_valid_map_Some: "first_valid (map Some xs) = (case xs of [] \<Rightarrow> None | x # _ \<Rightarrow> Some x)"
  by (cases xs) auto

lemma sorted_hd_Min:
  fixes xs :: "'a::linorder list"
  assumes "sorted xs" and "xs \<noteq> []"
  shows "hd xs = Min (set xs)"
proof -
  obtain y ys where xs: "xs = y # ys"
    using assms(2) by (cases xs) auto
  have "Min (set xs) = y"
    using assms(1) unfolding xs by (intro Min_eqI) auto
  then show ?thesis
    by (simp add: xs)
qed

lemma set_compas_df_sorted: "set (compas_df_sorted cs) = {r \<in> set cs. score_text r \<noteq> S ''N/A''}"
  by (auto simp: compas_df_sorted_def valid_scores_def)

lemma snd_filter_keyed:
  "map snd (filter (\<lambda>kv. fst kv = p) (map (\<lambda>r. (k r, Some (v r))) xs))
     = map Some (map v (filter (\<lambda>r. k r = p) xs))"
  by (induction xs) simp_all

lemma first_screening_lookup:
  assumes "r \<in> set (compas_df_sorted cs)"
  shows "map_of (first_screening cs) (compas_person_id r)
    = Some (Some (Min (compas_assessment_id `
        {r' \<in> set cs. score_text r' \<noteq> S ''N/A'' \<and> compas_person_id r' = compas_person_id r})))"
proof -
  let ?p = "compas_person_id r"
  let ?key = "\<lambda>r. (compas_person_id r, compas_assessment_id r)"
  let ?mine = "filter (\<lambda>r'. compas_person_id r' = ?p) (compas_df_sorted cs)"
  have "sorted (map ?key (compas_df_sorted cs))"
    by (simp add: compas_df_sorted_def)
  then have "sorted (map ?key ?mine)"
    by (rule sorted_filter)
  then have "sorted_wrt (\<lambda>a b. ?key a \<le> ?key b) ?mine"
    by (simp add: sorted_map)
  then have "sorted_wrt (\<lambda>a b. compas_assessment_id a \<le> compas_assessment_id b) ?mine"
    by (rule sorted_wrt_mono_rel [rotated]) (auto simp: less_eq_prod_def)
  then have srt: "sorted (map compas_assessment_id ?mine)"
    by (simp add: sorted_map)
  have ne: "?mine \<noteq> []"
    using assms by (auto simp: filter_empty_conv)
  have "set (map compas_assessment_id ?mine) = compas_assessment_id `
        {r' \<in> set cs. score_text r' \<noteq> S ''N/A'' \<and> compas_person_id r' = ?p}"
    by (auto simp: set_compas_df_sorted)
  with sorted_hd_Min [OF srt] ne
  have hd: "hd (map compas_assessment_id ?mine) = Min (compas_assessment_id `
        {r' \<in> set cs. score_text r' \<noteq> S ''N/A'' \<and> compas_person_id r' = ?p})"
    by simp
  have "first_valid (map snd (filter (\<lambda>kv. fst kv = ?p)
          (map (\<lambda>r. (compas_person_id r, Some (compas_assessment_id r))) (compas_df_sorted cs))))
        = Some (hd (map compas_assessment_id ?mine))"
    unfolding snd_filter_keyed using ne by (cases ?mine) simp_all
  moreover have "?p \<in> fst ` set (map (\<lambda>r. (compas_person_id r, Some (compas_assessment_id r)))
      (compas_df_sorted cs))"
    using assms by force
  ultimately show ?thesis
    unfolding first_screening_def map_of_groupby_first hd [symmetric] by simp
qed

lemma distinct_fst_groupby_first: "distinct (map fst (groupby_first kvs))"
  by (simp add: groupby_first_def comp_def)

text \<open>
  Claim C3. The frame that is pivoted, \<^verbatim>\<open>first_screening_df\<close>, consists of exactly those rows
  of the sorted frame (the rows of \<^verbatim>\<open>compas\<close> whose \<^verbatim>\<open>score_text\<close> is not \<^verbatim>\<open>"N/A"\<close>)
  whose \<^verbatim>\<open>compas_assessment_id\<close> is the smallest one among the rows of the same person that
  survive the filter. The type of assessment plays no part, so all rows that share the
  smallest identifier are kept.
\<close>

theorem first_screening_df_smallest_id:
  "first_screening_df cs =
     filter (\<lambda>r. compas_assessment_id r = Min (compas_assessment_id `
                {r' \<in> set cs. score_text r' \<noteq> S ''N/A'' \<and> compas_person_id r' = compas_person_id r}))
       (compas_df_sorted cs)
   \<and> set (first_screening_df cs) =
       {r \<in> set cs. score_text r \<noteq> S ''N/A'' \<and>
          compas_assessment_id r = Min (compas_assessment_id `
            {r' \<in> set cs. score_text r' \<noteq> S ''N/A'' \<and> compas_person_id r' = compas_person_id r})}"
proof -
  have "((compas_person_id r, Some (compas_assessment_id r)) \<in> set (first_screening cs))
      = (compas_assessment_id r = Min (compas_assessment_id `
            {r' \<in> set cs. score_text r' \<noteq> S ''N/A'' \<and> compas_person_id r' = compas_person_id r}))"
    if "r \<in> set (compas_df_sorted cs)" for r
  proof -
    have "((compas_person_id r, Some (compas_assessment_id r)) \<in> set (first_screening cs))
      = (map_of (first_screening cs) (compas_person_id r) = Some (Some (compas_assessment_id r)))"
      unfolding first_screening_def
      by (rule map_of_eq_Some_iff [OF distinct_fst_groupby_first, symmetric])
    then show ?thesis
      unfolding first_screening_lookup [OF that] by auto
  qed
  then have eq: "first_screening_df cs =
     filter (\<lambda>r. compas_assessment_id r = Min (compas_assessment_id `
                {r' \<in> set cs. score_text r' \<noteq> S ''N/A'' \<and> compas_person_id r' = compas_person_id r}))
       (compas_df_sorted cs)"
    unfolding first_screening_df_def by (intro filter_cong refl)
  have "set (first_screening_df cs) =
       {r \<in> set (compas_df_sorted cs).
          compas_assessment_id r = Min (compas_assessment_id `
            {r' \<in> set cs. score_text r' \<noteq> S ''N/A'' \<and> compas_person_id r' = compas_person_id r})}"
    unfolding eq by simp
  also have "\<dots> = {r \<in> set cs. score_text r \<noteq> S ''N/A'' \<and>
          compas_assessment_id r = Min (compas_assessment_id `
            {r' \<in> set cs. score_text r' \<noteq> S ''N/A'' \<and> compas_person_id r' = compas_person_id r})}"
    unfolding set_compas_df_sorted by blast
  finally show ?thesis
    using eq by (rule conjI [rotated])
qed

section \<open>Properties of the conversion to floats\<close>

lemma pow2_powi: "pow2 k = 2 powi k"
  by (simp add: pow2_def power_int_def inverse_eq_divide power_one_over)

lemma powi2_less_imp: "(2::rat) powi a < 2 powi b \<Longrightarrow> a < b"
  using power_int_increasing [of b a "2::rat"] by (cases "a < b") auto

lemma of_int_floorlog_bounds:
  assumes "0 < a"
  shows "(2::rat) powi (int (floorlog 2 (nat a)) - 1) \<le> of_int a"
    and "(of_int a :: rat) < 2 powi (int (floorlog 2 (nat a)))"
proof -
  define L where "L = floorlog 2 (nat a)"
  have "L \<noteq> 0"
    using assms by (simp add: L_def floorlog_eq_zero_iff)
  then obtain M where M: "L = Suc M"
    by (cases L) auto
  have "2 ^ (L - 1) \<le> nat a \<and> nat a < 2 ^ L"
    unfolding L_def using assms by (intro floorlog_bounds) auto
  then have "2 ^ M \<le> nat a" "nat a < 2 ^ L"
    by (simp_all add: M)
  then have "int (2 ^ M) \<le> a" "a < int (2 ^ L)"
    using assms by linarith+
  then have "(of_int (int (2 ^ M)) :: rat) \<le> of_int a" "(of_int a :: rat) < of_int (int (2 ^ L))"
    by (simp_all only: of_int_le_iff of_int_less_iff)
  then have "(2::rat) ^ M \<le> of_int a" "(of_int a :: rat) < 2 ^ L"
    by simp_all
  moreover have "int L - 1 = int M"
    by (simp add: M)
  ultimately show "(2::rat) powi (int (floorlog 2 (nat a)) - 1) \<le> of_int a"
    and "(of_int a :: rat) < 2 powi (int (floorlog 2 (nat a)))"
    unfolding L_def [symmetric] by (simp_all only: power_int_of_nat)
qed

lemma binary_exponent_bounds:
  assumes "x \<noteq> 0"
  shows "2 powi (binary_exponent x) \<le> \<bar>x\<bar>" and "\<bar>x\<bar> < 2 powi (binary_exponent x + 1)"
proof -
  obtain a b where q: "quotient_of \<bar>x\<bar> = (a, b)"
    by (cases "quotient_of \<bar>x\<bar>")
  have b: "0 < b"
    using q by (rule quotient_of_denom_pos)
  have x: "\<bar>x\<bar> = of_int a / of_int b"
    using q by (rule quotient_of_div)
  have a: "0 < a"
  proof (rule ccontr)
    assume "\<not> 0 < a"
    then have "(of_int a :: rat) \<le> 0" by simp
    then have "\<bar>x\<bar> \<le> 0"
      unfolding x using b by (simp add: divide_le_0_iff)
    then show False using assms by simp
  qed
  define La where "La = int (floorlog 2 (nat a))"
  define Lb where "Lb = int (floorlog 2 (nat b))"
  define k where "k = La - Lb"
  note A = of_int_floorlog_bounds [OF a, folded La_def]
  note B = of_int_floorlog_bounds [OF b, folded Lb_def]
  have bpos: "(0::rat) < of_int b" using b by simp
  have p: "(0::rat) < 2 powi m" for m by simp
  have "\<bar>x\<bar> < 2 powi La / of_int b"
    unfolding x using A(2) bpos by (simp add: divide_strict_right_mono)
  also have "\<dots> \<le> 2 powi La / 2 powi (Lb - 1)"
    using B(1) p [of La] p [of "Lb - 1"] by (simp add: frac_le)
  also have "\<dots> = 2 powi (k + 1)"
    by (simp add: k_def power_int_diff [symmetric] algebra_simps)
  finally have up: "\<bar>x\<bar> < 2 powi (k + 1)" .
  have "2 powi (k - 1) = 2 powi (La - 1) / (2 powi Lb :: rat)"
    by (simp add: k_def power_int_diff [symmetric] algebra_simps)
  also have "\<dots> \<le> of_int a / 2 powi Lb"
    using A(1) by (simp add: divide_right_mono)
  also have "\<dots> \<le> of_int a / of_int b"
    using B(2) a bpos by (simp add: frac_le)
  finally have lo: "2 powi (k - 1) \<le> \<bar>x\<bar>"
    by (simp add: x)
  have e: "binary_exponent x = (if 2 powi k \<le> \<bar>x\<bar> then k else k - 1)"
    by (simp add: binary_exponent_def q k_def La_def Lb_def pow2_powi Let_def)
  show "2 powi (binary_exponent x) \<le> \<bar>x\<bar>"
    using lo by (simp add: e)
  show "\<bar>x\<bar> < 2 powi (binary_exponent x + 1)"
    using up by (auto simp: e not_le)
qed

lemma binary_exponent_less:
  assumes "x \<noteq> 0" and "\<bar>x\<bar> < 2 powi m"
  shows "binary_exponent x < m"
proof -
  have "(2::rat) powi (binary_exponent x) < 2 powi m"
    using binary_exponent_bounds(1) [OF assms(1)] assms(2) by (rule le_less_trans)
  then show ?thesis
    by (rule powi2_less_imp)
qed

lemma py_round_of_int: "py_round (of_int m) = m"
  by (simp add: py_round_def)

lemma to_double_of_int:
  assumes "\<bar>n\<bar> < 2 ^ 53"
  shows "to_double (of_int n) = Fin (of_int n)"
proof (cases "n = 0")
  case True
  then show ?thesis by (simp add: to_double_def)
next
  case False
  let ?x = "of_int n :: rat"
  let ?e = "binary_exponent ?x"
  have x0: "?x \<noteq> 0" using False by simp
  have "\<bar>?x\<bar> < of_int (2 ^ 53)"
    using assms by (simp only: of_int_abs [symmetric] of_int_less_iff)
  then have "\<bar>?x\<bar> < 2 powi 53"
    by simp
  then have e53: "?e < 53"
    by (rule binary_exponent_less [OF x0])
  have "1 \<le> \<bar>n\<bar>"
    using False by simp
  then have "(of_int 1 :: rat) \<le> of_int \<bar>n\<bar>"
    by (simp only: of_int_le_iff)
  then have "(1::rat) \<le> \<bar>?x\<bar>"
    by simp
  then have "(2::rat) powi 0 < 2 powi (?e + 1)"
    using binary_exponent_bounds(2) [OF x0] by simp
  then have "0 < ?e + 1"
    by (rule powi2_less_imp)
  then have e0: "0 \<le> ?e"
    by simp
  define t where "t = nat (52 - ?e)"
  have s: "max (?e - 52) (- 1074) = - int t"
    using e0 e53 by (simp add: t_def)
  have p: "pow2 (- int t) = 1 / 2 ^ t"
    by (cases "t = 0") (simp_all add: pow2_def)
  have "?x / pow2 (- int t) = of_int (n * 2 ^ t)"
    unfolding p by simp
  then have "py_round (?x / pow2 (- int t)) = n * 2 ^ t"
    by (simp only: py_round_of_int)
  then have r: "of_int (py_round (?x / pow2 (- int t))) * pow2 (- int t) = ?x"
    unfolding p by simp
  have small: "\<not> 1024 \<le> ?e"
    using e53 by simp
  show ?thesis
    unfolding to_double_def Let_def s r using x0 small by (simp only: if_False)
qed

section \<open>Properties of the retyping\<close>

lemma astype_float_small_int:
  "\<bar>n\<bar> < 2 ^ 53 \<Longrightarrow> astype_float (I n) = Inr (Fin (of_int n))"
  by (simp add: astype_float_def to_double_of_int)

lemma finite_values_set: "q \<in> set (finite_values xs) \<longleftrightarrow> Fin q \<in> set xs"
  by (auto simp: finite_values_def split: float.splits)

lemma finite_values_Nil: "finite_values xs = [] \<longleftrightarrow> (\<forall>q. Fin q \<notin> set xs)"
  using finite_values_set [of _ xs] by (cases "finite_values xs") auto

lemma astype_Int64_Inr:
  assumes "astype_Int64 xs = Inr ws"
  shows "ws = map (\<lambda>x. case x of Fin q \<Rightarrow> I \<lfloor>q\<rfloor> | _ \<Rightarrow> Null) xs"
    and "PInf \<notin> set xs" and "NInf \<notin> set xs"
    and "Fin q \<in> set xs \<Longrightarrow> whole q \<and> fits_int64 \<lfloor>q\<rfloor>"
proof -
  show p: "PInf \<notin> set xs"
    using assms by (auto simp: astype_Int64_def Let_def split: if_splits)
  show n: "NInf \<notin> set xs"
    using assms by (auto simp: astype_Int64_def Let_def split: if_splits)
  show "ws = map (\<lambda>x. case x of Fin q \<Rightarrow> I \<lfloor>q\<rfloor> | _ \<Rightarrow> Null) xs"
  proof (cases "finite_values xs = []")
    case True
    then have "(case x of Fin q \<Rightarrow> I \<lfloor>q\<rfloor> | _ \<Rightarrow> Null) = Null" if "x \<in> set xs" for x
      using that by (cases x) (auto simp: finite_values_Nil)
    then have "map (\<lambda>x. case x of Fin q \<Rightarrow> I \<lfloor>q\<rfloor> | _ \<Rightarrow> Null) xs = map (\<lambda>x. Null) xs"
      by (intro map_cong) auto
    then show ?thesis
      using assms True by (auto simp: astype_Int64_def Let_def split: if_splits)
  next
    case False
    then show ?thesis
      using assms by (auto simp: astype_Int64_def Let_def split: if_splits)
  qed
  show "whole q \<and> fits_int64 \<lfloor>q\<rfloor>" if "Fin q \<in> set xs"
  proof -
    have q: "q \<in> set (finite_values xs)"
      using that by (simp add: finite_values_set)
    then have "finite_values xs \<noteq> []" by auto
    then have "\<not> list_ex (\<lambda>q. \<not> (whole q \<and> fits_int64 \<lfloor>q\<rfloor>)) (finite_values xs)"
      using assms by (auto simp: astype_Int64_def Let_def split: if_splits)
    then show ?thesis
      using q by (auto simp: list_ex_iff)
  qed
qed

lemma ds_column_nth:
  assumes "ds_column vs = Inr ws"
  shows "length ws = length vs"
    and "j < length vs \<Longrightarrow>
           (astype_float (vs ! j) = Inr NaN \<and> ws ! j = Null)
           \<or> (\<exists>q. astype_float (vs ! j) = Inr (Fin q) \<and> whole q \<and> fits_int64 \<lfloor>q\<rfloor>
                  \<and> ws ! j = I \<lfloor>q\<rfloor>)"
proof -
  from assms obtain xs where xs: "traverse astype_float vs = Inr xs"
    and ws: "astype_Int64 xs = Inr ws"
    by (auto simp: ds_column_def split: sum.splits)
  note c = astype_Int64_Inr [OF ws]
  have len: "length xs = length vs"
    using xs by (rule traverse_length)
  then show "length ws = length vs"
    by (simp add: c(1))
  show "(astype_float (vs ! j) = Inr NaN \<and> ws ! j = Null)
      \<or> (\<exists>q. astype_float (vs ! j) = Inr (Fin q) \<and> whole q \<and> fits_int64 \<lfloor>q\<rfloor>
             \<and> ws ! j = I \<lfloor>q\<rfloor>)" if "j < length vs"
  proof -
    have f: "astype_float (vs ! j) = Inr (xs ! j)"
      using xs that by (rule traverse_nth)
    have m: "xs ! j \<in> set xs"
      using that len by simp
    have w: "ws ! j = (case xs ! j of Fin q \<Rightarrow> I \<lfloor>q\<rfloor> | _ \<Rightarrow> Null)"
      using that len by (simp add: c(1))
    show ?thesis
    proof (cases "xs ! j")
      case (Fin q)
      then show ?thesis
        using f w m c(4) [of q] by simp
    next
      case PInf
      then show ?thesis using m c(2) by simp
    next
      case NInf
      then show ?thesis using m c(3) by simp
    next
      case NaN
      then show ?thesis using f w by simp
    qed
  qed
qed

lemma traverse_Inl_same:
  assumes "\<And>x. x \<in> set xs \<Longrightarrow> (\<exists>y. f x = Inr y) \<or> f x = Inl e"
    and "\<exists>x\<in>set xs. f x = Inl e"
  shows "traverse f xs = Inl e"
  using assms
proof (induction xs)
  case Nil
  then show ?case by simp
next
  case (Cons x xs)
  show ?case
  proof (cases "f x")
    case (Inl e')
    then show ?thesis
      using Cons.prems(1) [of x] by simp
  next
    case (Inr y)
    then have "\<exists>x\<in>set xs. f x = Inl e"
      using Cons.prems(2) by auto
    then have "traverse f xs = Inl e"
      using Cons.prems(1) by (intro Cons.IH) auto
    then show ?thesis
      using Inr by simp
  qed
qed

lemma astype_float_floats:
  assumes "\<And>v. v \<in> set vs \<Longrightarrow> v = Null \<or> (\<exists>q. v = F q)"
  shows "traverse astype_float vs
    = Inr (map (\<lambda>v. case v of F q \<Rightarrow> Fin q | _ \<Rightarrow> NaN) vs)"
  using assms
proof (induction vs)
  case Nil
  then show ?case by simp
next
  case (Cons v vs)
  have "traverse astype_float vs = Inr (map (\<lambda>v. case v of F q \<Rightarrow> Fin q | _ \<Rightarrow> NaN) vs)"
    using Cons.prems by (intro Cons.IH) auto
  moreover have "astype_float v = Inr (case v of F q \<Rightarrow> Fin q | _ \<Rightarrow> NaN)"
    using Cons.prems [of v] by (auto simp: astype_float_def)
  ultimately show ?case by simp
qed

lemma fits_int64_trunc:
  assumes "- (2 ^ 63) \<le> q" and "q < 2 ^ 63"
  shows "fits_int64 (trunc q)"
proof -
  have "(of_int (- (2 ^ 63)) :: rat) \<le> q" "q < of_int (2 ^ 63)"
    using assms by simp_all
  then have "- (2 ^ 63) \<le> \<lfloor>q\<rfloor>" "\<lceil>q\<rceil> \<le> 2 ^ 63"
    by (simp_all only: le_floor_iff ceiling_le_iff)
  moreover have "\<lfloor>q\<rfloor> < 2 ^ 63"
    using \<open>q < of_int (2 ^ 63)\<close> by (simp only: floor_less_iff)
  moreover have "\<lceil>q\<rceil> < 2 ^ 63" if "q < 0"
    using that by (smt (verit) ceiling_le_zero less_eq_rat_def zero_less_power)
  moreover have "\<lfloor>q\<rfloor> \<le> \<lceil>q\<rceil>"
    by (rule floor_le_ceiling)
  ultimately show ?thesis
    by (auto simp: fits_int64_def trunc_def)
qed

text \<open>
  A column of nulls and of floats within 64 bits only: the conversion gives integers or
  raises \<^verbatim>\<open>TypeError\<close>, and it raises if one of the floats has a fractional part.
\<close>

lemma ds_column_floats:
  assumes "\<And>v. v \<in> set vs \<Longrightarrow> v = Null \<or> (\<exists>q. v = F q \<and> - (2 ^ 63) \<le> q \<and> q < 2 ^ 63)"
  shows "(\<exists>ws. ds_column vs = Inr ws) \<or> ds_column vs = Inl TypeError"
    and "F q \<in> set vs \<Longrightarrow> \<not> whole q \<Longrightarrow> ds_column vs = Inl TypeError"
proof -
  define xs where "xs = map (\<lambda>v. case v of F q \<Rightarrow> Fin q | _ \<Rightarrow> NaN) vs"
  have t: "traverse astype_float vs = Inr xs"
    unfolding xs_def using assms by (intro astype_float_floats) auto
  have d: "ds_column vs = astype_Int64 xs"
    by (simp add: ds_column_def t)
  have kind: "x = NaN \<or> (\<exists>q. x = Fin q \<and> F q \<in> set vs)" if "x \<in> set xs" for x
    using that assms unfolding xs_def by (auto split: cell.splits)
  have p: "PInf \<notin> set xs" and n: "NInf \<notin> set xs"
    using kind by auto
  have fits: "fits_int64 (trunc q)" if "q \<in> set (finite_values xs)" for q
  proof -
    have "Fin q \<in> set xs" using that by (simp add: finite_values_set)
    then have "F q \<in> set vs" using kind by auto
    then show ?thesis
      using assms [of "F q"] by (auto intro: fits_int64_trunc)
  qed
  then have ex: "\<not> list_ex (\<lambda>q. \<not> fits_int64 (trunc q)) (finite_values xs)"
    by (auto simp: list_ex_iff)
  show "(\<exists>ws. ds_column vs = Inr ws) \<or> ds_column vs = Inl TypeError"
    unfolding d using p n ex by (auto simp: astype_Int64_def Let_def)
  show "ds_column vs = Inl TypeError" if "F q \<in> set vs" "\<not> whole q"
  proof -
    have "Fin q \<in> set xs"
      using that(1) unfolding xs_def by (force simp: image_iff)
    then have q: "q \<in> set (finite_values xs)"
      by (simp add: finite_values_set)
    then have ne: "finite_values xs \<noteq> []" by auto
    have "list_ex (\<lambda>q. \<not> (whole q \<and> fits_int64 \<lfloor>q\<rfloor>)) (finite_values xs)"
      using q that(2) by (auto simp: list_ex_iff)
    then show ?thesis
      unfolding d using p n ex ne by (simp add: astype_Int64_def Let_def)
  qed
qed

text \<open>The exception that the conversion of a column raises, on some columns.\<close>

lemma ds_column_exceptions:
  "ds_column [F (17 / 4)] = Inl TypeError"
  "ds_column [F 5, F (17 / 4)] = Inl TypeError"
  "ds_column [F 4, F (- (10 ^ 19))] = Inl TypeError"
  "ds_column [F 4, S ''-inf''] = Inl TypeError"
  "ds_column [S ''inf''] = Inl OverflowError"
  "ds_column [F (17 / 4), F (- (10 ^ 19))] = Inl OverflowError"
  "ds_column [F (17 / 4), S ''-inf''] = Inl OverflowError"
  "ds_column [F (17 / 4), S ''abc''] = Inl ValueError"
  "ds_column [S ''4.0'', Null, I 3, F (- 2)] = Inr [I 4, Null, I 3, I (- 2)]"
  by code_simp+

text \<open>
  Claim C6, as amended. Every column of the person table whose name after the renaming
  contains \<^verbatim>\<open>ds_\<close> is converted, first to floats and then to nullable integers, and the other
  columns are left as they are. A null stays null. No value is rounded: if the conversion
  of all these columns succeeds, then every float in them is a whole number, and the
  result is that number; an integer below \<open>2\<^sup>5\<^sup>3\<close> in absolute value is unchanged. If a cell of
  such a column is a float with a fractional part, or a string that is read as one, the
  conversion raises an exception, and nothing is returned. The exception is a
  \<^verbatim>\<open>TypeError\<close> if the columns to convert hold nothing but nulls and floats within 64 bits.
\<close>

theorem ds_columns_cast:
  assumes "k < length cs" and "cs ! k = (c, vs)"
  shows "(\<forall>cs'. ds_columns cs = Inr cs' \<longrightarrow>
            length cs' = length cs \<and>
            (\<exists>ws. cs' ! k = (c, ws) \<and> length ws = length vs \<and>
               (if contains ''ds_'' c
                then ds_column vs = Inr ws \<and>
                     (\<forall>j<length vs.
                        (vs ! j = Null \<longrightarrow> ws ! j = Null)
                        \<and> (\<forall>q. vs ! j = F q \<longrightarrow> of_int \<lfloor>q\<rfloor> = q \<and> ws ! j = I \<lfloor>q\<rfloor>)
                        \<and> (\<forall>n. vs ! j = I n \<longrightarrow> \<bar>n\<bar> < 2 ^ 53 \<longrightarrow> ws ! j = I n))
                else ws = vs)))
    \<and> (contains ''ds_'' c
          \<and> (\<exists>v\<in>set vs. \<exists>q. astype_float v = Inr (Fin q) \<and> of_int \<lfloor>q\<rfloor> \<noteq> q)
        \<longrightarrow> (\<exists>e. ds_columns cs = Inl e))
    \<and> (contains ''ds_'' c \<and> (\<exists>q. F q \<in> set vs \<and> of_int \<lfloor>q\<rfloor> \<noteq> q)
          \<and> (\<forall>(c', vs')\<in>set cs. contains ''ds_'' c' \<longrightarrow>
                (\<forall>v\<in>set vs'. v = Null \<or> (\<exists>q. v = F q \<and> - (2 ^ 63) \<le> q \<and> q < 2 ^ 63)))
        \<longrightarrow> ds_columns cs = Inl TypeError)"
proof -
  let ?f = "\<lambda>(c, vs). if contains ''ds_'' c
              then (case ds_column vs of Inl e \<Rightarrow> Inl e | Inr ws \<Rightarrow> Inr (c, ws))
              else Inr (c, vs)"
  have ok: "length cs' = length cs \<and>
            (\<exists>ws. cs' ! k = (c, ws) \<and> length ws = length vs \<and>
               (if contains ''ds_'' c
                then ds_column vs = Inr ws \<and>
                     (\<forall>j<length vs.
                        (vs ! j = Null \<longrightarrow> ws ! j = Null)
                        \<and> (\<forall>q. vs ! j = F q \<longrightarrow> of_int \<lfloor>q\<rfloor> = q \<and> ws ! j = I \<lfloor>q\<rfloor>)
                        \<and> (\<forall>n. vs ! j = I n \<longrightarrow> \<bar>n\<bar> < 2 ^ 53 \<longrightarrow> ws ! j = I n))
                else ws = vs))" if run: "ds_columns cs = Inr cs'" for cs'
  proof -
    have t: "traverse ?f cs = Inr cs'"
      using run by (simp add: ds_columns_def)
    have len: "length cs' = length cs"
      using t by (rule traverse_length)
    have k: "?f (c, vs) = Inr (cs' ! k)"
      using traverse_nth [OF t assms(1)] by (simp add: assms(2))
    show ?thesis
    proof (cases "contains ''ds_'' c")
      case False
      then show ?thesis
        using k len by auto
    next
      case True
      with k obtain ws where ws: "ds_column vs = Inr ws" "cs' ! k = (c, ws)"
        by (auto split: sum.splits)
      note cell = ds_column_nth(2) [OF ws(1)]
      have "(vs ! j = Null \<longrightarrow> ws ! j = Null)
          \<and> (\<forall>q. vs ! j = F q \<longrightarrow> of_int \<lfloor>q\<rfloor> = q \<and> ws ! j = I \<lfloor>q\<rfloor>)
          \<and> (\<forall>n. vs ! j = I n \<longrightarrow> \<bar>n\<bar> < 2 ^ 53 \<longrightarrow> ws ! j = I n)"
        if "j < length vs" for j
      proof -
        have "ws ! j = Null" if "vs ! j = Null"
          using cell [OF \<open>j < length vs\<close>] that by (simp add: astype_float_def)
        moreover have "of_int \<lfloor>q\<rfloor> = q \<and> ws ! j = I \<lfloor>q\<rfloor>" if "vs ! j = F q" for q
          using cell [OF \<open>j < length vs\<close>] that by (auto simp: astype_float_def whole_def)
        moreover have "ws ! j = I n" if "vs ! j = I n" "\<bar>n\<bar> < 2 ^ 53" for n
          using cell [OF \<open>j < length vs\<close>] that by (auto simp: astype_float_small_int)
        ultimately show ?thesis by blast
      qed
      then show ?thesis
        using ws ds_column_nth(1) [OF ws(1)] len True by auto
    qed
  qed
  have bad: "\<exists>e. ds_columns cs = Inl e"
    if ds: "contains ''ds_'' c" and v: "v \<in> set vs" "astype_float v = Inr (Fin q)"
      and q: "of_int \<lfloor>q\<rfloor> \<noteq> q" for v q
  proof (cases "ds_columns cs")
    case (Inl e)
    then show ?thesis by blast
  next
    case (Inr cs')
    from ok [OF Inr] ds obtain ws where ws: "ds_column vs = Inr ws"
      by auto
    from v(1) obtain j where j: "j < length vs" "vs ! j = v"
      by (auto simp: in_set_conv_nth)
    from ds_column_nth(2) [OF ws j(1)] have "whole q"
      by (auto simp: j(2) v(2))
    with q show ?thesis
      by (simp add: whole_def)
  qed
  have kind: "ds_columns cs = Inl TypeError"
    if ds: "contains ''ds_'' c" and q: "F q \<in> set vs" "of_int \<lfloor>q\<rfloor> \<noteq> q"
      and all: "\<forall>(c', vs')\<in>set cs. contains ''ds_'' c' \<longrightarrow>
                (\<forall>v\<in>set vs'. v = Null \<or> (\<exists>q. v = F q \<and> - (2 ^ 63) \<le> q \<and> q < 2 ^ 63))" for q
  proof -
    have m: "(c, vs) \<in> set cs"
      using assms by (metis nth_mem)
    have fl: "v = Null \<or> (\<exists>q. v = F q \<and> - (2 ^ 63) \<le> q \<and> q < 2 ^ 63)"
      if "(c', vs') \<in> set cs" "contains ''ds_'' c'" "v \<in> set vs'" for c' vs' v
      using all that by blast
    have "(\<exists>y. ?f x = Inr y) \<or> ?f x = Inl TypeError" if "x \<in> set cs" for x
    proof (cases x)
      case (Pair c' vs')
      show ?thesis
      proof (cases "contains ''ds_'' c'")
        case False
        then show ?thesis by (simp add: Pair)
      next
        case True
        have "(\<exists>ws. ds_column vs' = Inr ws) \<or> ds_column vs' = Inl TypeError"
          using fl [of c' vs'] that True by (intro ds_column_floats(1)) (auto simp: Pair)
        then show ?thesis
          using True by (auto simp: Pair)
      qed
    qed
    moreover have "ds_column vs = Inl TypeError"
      using fl [OF m ds] q by (intro ds_column_floats(2) [of vs q]) (auto simp: whole_def)
    then have "\<exists>x\<in>set cs. ?f x = Inl TypeError"
      using m ds by (intro bexI [of _ "(c, vs)"]) auto
    ultimately have "traverse ?f cs = Inl TypeError"
      by (intro traverse_Inl_same) auto
    then show ?thesis
      by (simp add: ds_columns_def)
  qed
  show ?thesis
    using ok bad kind by (intro conjI allI impI) blast+
qed

theorem ds_columns_cast_counterexample:
  "ds_columns [(''ds_vrecid'', [F (17 / 4)])] = Inl TypeError"
  by code_simp

theorem ds_columns_cast_witness:
  "ds_columns [(''ds_vrecid'', [I 4, Null, F 7]), (''male'', [I 1, I 0, I 1])]
     = Inr [(''ds_vrecid'', [I 4, Null, I 7]), (''male'', [I 1, I 0, I 1])]
   \<and> ds_columns [(''ds_grecid'', [F 3, Null, F (5 / 2)])] = Inl TypeError"
proof -
  let ?cs = "[(''ds_vrecid'', [I 4, Null, F 7]), (''male'', [I 1, I 0, I 1])]"
  let ?bad = "[(''ds_grecid'', [F 3, Null, F (5 / 2)])]"
  have cs': "ds_columns ?cs = Inr [(''ds_vrecid'', [I 4, Null, I 7]), (''male'', [I 1, I 0, I 1])]"
    by code_simp
  have k: "0 < length ?cs" by simp
  have c: "?cs ! 0 = (''ds_vrecid'', [I 4, Null, F 7])" by simp
  have k': "0 < length ?bad" by simp
  have c': "?bad ! 0 = (''ds_grecid'', [F 3, Null, F (5 / 2)])" by simp
  have ds: "contains ''ds_'' ''ds_grecid''" by code_simp
  have "of_int \<lfloor>5 / 2 :: rat\<rfloor> \<noteq> (5 / 2 :: rat)"
    by code_simp
  then have q: "F (5 / 2) \<in> set [F 3, Null, F (5 / 2)] \<and> of_int \<lfloor>5 / 2 :: rat\<rfloor> \<noteq> (5 / 2 :: rat)"
    by simp
  have "\<exists>q. F 3 = F q \<and> - (2 ^ 63) \<le> q \<and> q < 2 ^ 63"
    by (rule exI [of _ 3]) simp
  moreover have "\<exists>q. F (5 / 2) = F q \<and> - (2 ^ 63) \<le> q \<and> q < 2 ^ 63"
    by (rule exI [of _ "5 / 2"]) simp
  ultimately have all: "\<forall>(c', vs')\<in>set ?bad. contains ''ds_'' c' \<longrightarrow>
      (\<forall>v\<in>set vs'. v = Null \<or> (\<exists>q. v = F q \<and> - (2 ^ 63) \<le> q \<and> q < 2 ^ 63))"
    by simp
  from ds_columns_cast [OF k c] cs' have "ds_columns ?cs
      = Inr [(''ds_vrecid'', [I 4, Null, I 7]), (''male'', [I 1, I 0, I 1])]"
    by (simp only:)
  moreover from ds_columns_cast [OF k' c'] ds q all have "ds_columns ?bad = Inl TypeError"
    by blast
  ultimately show ?thesis
    by (rule conjI)
qed

section \<open>Properties of the renaming\<close>

lemma rename_columns_append:
  "rename_columns rs (xs @ ys) = rename_columns rs xs @ rename_columns rs ys"
  unfolding rename_columns_def by (induction rs arbitrary: xs ys) (auto simp: case_prod_beta)

lemma rename_columns_length: "length (rename_columns rs xs) = length xs"
  unfolding rename_columns_def by (induction rs arbitrary: xs) (auto simp: case_prod_beta)

lemma rename_columns_notebook:
  "rename_columns repl
     [''sex'', ''age'', ''age_at_first_arrest'', ''marital_status'', ''rec_supervision_level'',
      ''raw_score_risk_of_failure_to_appear'', ''raw_score_risk_of_recidivism'',
      ''raw_score_risk_of_violence'', ''decile_score_risk_of_failure_to_appear'',
      ''decile_score_risk_of_recidivism'', ''decile_score_risk_of_violence'',
      ''score_text_risk_of_failure_to_appear'', ''score_text_risk_of_recidivism'',
      ''score_text_risk_of_violence'']
   = [''male'', ''age'', ''age_at_first_arrest'', ''marital_status'', ''slevel'',
      ''rs_fta'', ''rs_grecid'', ''rs_vrecid'', ''ds_fta'', ''ds_grecid'', ''ds_vrecid'',
      ''fta_text'', ''grecid_text'', ''vrecid_text'']"
  by code_simp

text \<open>
  Claim C7, as amended. The renaming applies the entries of \<^verbatim>\<open>repl\<close> one after the other,
  in the order in which the dictionary lists them, to every column name on its own. In that
  order the names that the notebook itself produces become \<^verbatim>\<open>male\<close>, \<^verbatim>\<open>slevel\<close>,
  \<^verbatim>\<open>rs_fta\<close>, ..., \<^verbatim>\<open>vrecid_text\<close>, whatever other columns stand before or after them. (The
  result depends on the order: the entries for \<^verbatim>\<open>score_text_fta\<close>,
  \<^verbatim>\<open>score_text_grecid\<close> and \<^verbatim>\<open>score_text_vrecid\<close> only match names that the entries for
  \<^verbatim>\<open>risk_of_...\<close> have produced before.)
\<close>

theorem rename_columns_listed_order:
  "rename_columns repl
     (xs @ [''sex'', ''age'', ''age_at_first_arrest'', ''marital_status'',
            ''rec_supervision_level'',
            ''raw_score_risk_of_failure_to_appear'', ''raw_score_risk_of_recidivism'',
            ''raw_score_risk_of_violence'', ''decile_score_risk_of_failure_to_appear'',
            ''decile_score_risk_of_recidivism'', ''decile_score_risk_of_violence'',
            ''score_text_risk_of_failure_to_appear'', ''score_text_risk_of_recidivism'',
            ''score_text_risk_of_violence''] @ ys)
   = rename_columns repl xs
     @ [''male'', ''age'', ''age_at_first_arrest'', ''marital_status'', ''slevel'',
        ''rs_fta'', ''rs_grecid'', ''rs_vrecid'', ''ds_fta'', ''ds_grecid'', ''ds_vrecid'',
        ''fta_text'', ''grecid_text'', ''vrecid_text'']
     @ rename_columns repl ys"
  by (simp only: rename_columns_append rename_columns_notebook)

theorem rename_columns_order_counterexample:
  "rename_columns (rev repl) [''score_text_risk_of_violence''] = [''score_text_vrecid'']
   \<and> rename_columns repl [''score_text_risk_of_violence''] = [''vrecid_text'']"
  by code_simp

section \<open>Properties of the files written\<close>

lemma dropna_cols:
  "cols (dropna f) =
     map (\<lambda>(c, vs). (c, map (\<lambda>j. vs ! j)
            (filter (\<lambda>j. list_all (\<lambda>(c, vs). vs ! j \<noteq> Null) (cols f)) [0..<length (index f)])))
       (cols f)"
  by (simp add: dropna_def Let_def)

lemma dropna_no_null:
  assumes "(c, ws) \<in> set (cols (dropna f))"
  shows "Null \<notin> set ws"
proof
  define keep where
    "keep = filter (\<lambda>j. list_all (\<lambda>(c, vs). vs ! j \<noteq> Null) (cols f)) [0..<length (index f)]"
  assume "Null \<in> set ws"
  moreover from assms obtain vs where vs: "(c, vs) \<in> set (cols f)"
    and ws: "ws = map (\<lambda>j. vs ! j) keep"
    unfolding dropna_cols keep_def by auto
  ultimately obtain j where j: "j \<in> set keep" "vs ! j = Null"
    by auto
  from j(1) have "list_all (\<lambda>(c, vs). vs ! j \<noteq> Null) (cols f)"
    by (simp add: keep_def)
  then have "\<forall>x \<in> set (cols f). case x of (c, vs) \<Rightarrow> vs ! j \<noteq> Null"
    by (simp only: list_all_iff)
  with vs j(2) show False
    by auto
qed

lemma dropna_index:
  "index (dropna f) =
     map (\<lambda>j. index f ! j)
       (filter (\<lambda>j. \<forall>(c, vs) \<in> set (cols f). vs ! j \<noteq> Null) [0..<length (index f)])"
  by (simp add: dropna_def Let_def list_all_iff)

lemma dropna_length:
  "(c, ws) \<in> set (cols (dropna f)) \<Longrightarrow> length ws = length (index (dropna f))"
  by (auto simp: dropna_def Let_def)

lemma run_Inr:
  "run d = Inr out \<Longrightarrow> \<exists>f. person_table d = Inr f \<and> compas_csv out = dropna f"
  by (auto simp: run_def split: sum.splits)

lemma run_example_db:
  "run example_db =
     Inr \<lparr>compas_csv =
            \<lparr>index = [0],
             cols =
               [(''male'', [I 1]), (''age'', [I 40]), (''priors_count'', [I 2]),
                (''age_at_first_arrest'', [I 20]), (''marital_status'', [S ''Single'']),
                (''slevel'', [I 1]), (''rs_fta'', [F 12]), (''rs_grecid'', [F (11 / 10)]),
                (''rs_vrecid'', [F (16 / 5)]), (''ds_fta'', [I 1]), (''ds_grecid'', [I 2]),
                (''ds_vrecid'', [I 4]), (''fta_text'', [S ''Low'']),
                (''grecid_text'', [S ''Low'']), (''vrecid_text'', [S ''Medium''])]\<rparr>,
          fta_bins_csv =
            \<lparr>index = [0],
             cols = [(''raw_score'', [F 12]), (''decile_score'', [I 1]),
                     (''score_text'', [S ''Low''])]\<rparr>,
          grecid_bins_csv =
            \<lparr>index = [0, 1],
             cols = [(''raw_score'', [F (11 / 10), F (3 / 2)]), (''decile_score'', [I 2, I 3]),
                     (''score_text'', [S ''Low'', S ''Low''])]\<rparr>,
          vrecid_bins_csv =
            \<lparr>index = [0],
             cols = [(''raw_score'', [F (16 / 5)]), (''decile_score'', [I 4]),
                     (''score_text'', [S ''Medium''])]\<rparr>\<rparr>"
  by code_simp

text \<open>
  Claim C8. The person table that is written is the result of \<^verbatim>\<open>dropna()\<close> on the person
  table: no cell of any of its columns is null, and every column has one cell for each row
  that is left.
\<close>

theorem compas_csv_no_null:
  assumes "run d = Inr out" and "(c, ws) \<in> set (cols (compas_csv out))"
  shows "Null \<notin> set ws \<and> length ws = length (index (compas_csv out))
    \<and> (\<exists>f. person_table d = Inr f \<and> compas_csv out = dropna f)"
  using run_Inr [OF assms(1)] assms(2) dropna_no_null dropna_length by auto

theorem compas_csv_no_null_witness:
  "\<exists>out. run example_db = Inr out
     \<and> (''vrecid_text'', [S ''Medium'']) \<in> set (cols (compas_csv out))
     \<and> Null \<notin> set [S ''Medium'']
     \<and> length [S ''Medium''] = length (index (compas_csv out))"
proof -
  obtain out where out: "run example_db = Inr out"
    and c: "(''vrecid_text'', [S ''Medium'']) \<in> set (cols (compas_csv out))"
    using run_example_db by simp
  from compas_csv_no_null [OF out c] out c show ?thesis
    by blast
qed

lemma bins_row:
  assumes "i < length (index (bins t cs))"
  shows "\<exists>r \<in> set cs. score_text r \<noteq> S ''N/A'' \<and> type_of_assessment r = t
           \<and> map (\<lambda>(c, ws). ws ! i) (cols (bins t cs))
               = [raw_score r, decile_score r, score_text r]"
proof -
  define rows where "rows = filter (\<lambda>r. type_of_assessment r = t) (valid_scores cs)"
  define f where "f = \<lparr>index = [0..<length rows],
                 cols = map (\<lambda>(vn, v). (vn, map v rows)) score_columns\<rparr>"
  define keep where "keep = filter (\<lambda>j. list_all (\<lambda>(c, vs). vs ! j \<noteq> Null) (cols f)) [0..<length (index f)]"
  have b: "bins t cs = dropna f"
    by (simp add: bins_def rows_def f_def Let_def)
  have d: "dropna f = \<lparr>index = map (\<lambda>j. index f ! j) keep,
                         cols = map (\<lambda>(c, vs). (c, map (\<lambda>j. vs ! j) keep)) (cols f)\<rparr>"
    unfolding dropna_def keep_def Let_def ..
  have i: "i < length keep"
    using assms by (simp add: b d)
  have "\<forall>j \<in> set keep. j < length (index f)"
    unfolding keep_def by simp
  moreover have "length (index f) = length rows"
    by (simp add: f_def)
  ultimately have kl: "keep ! i < length rows"
    using i by (metis nth_mem)
  then have "rows ! (keep ! i) \<in> set rows"
    by simp
  then have r: "rows ! (keep ! i) \<in> set cs" "score_text (rows ! (keep ! i)) \<noteq> S ''N/A''"
    "type_of_assessment (rows ! (keep ! i)) = t"
    by (auto simp: rows_def valid_scores_def)
  have "map (\<lambda>(c, ws). ws ! i) (cols (bins t cs))
      = [raw_score (rows ! (keep ! i)), decile_score (rows ! (keep ! i)),
         score_text (rows ! (keep ! i))]"
  proof -
    have "cols (bins t cs) =
        [(''raw_score'', map (\<lambda>j. map raw_score rows ! j) keep),
         (''decile_score'', map (\<lambda>j. map decile_score rows ! j) keep),
         (''score_text'', map (\<lambda>j. map score_text rows ! j) keep)]"
      unfolding b d by (simp add: f_def score_columns_def)
    then show ?thesis
      using i kl by simp
  qed
  with r show ?thesis
    by (intro bexI [of _ "rows ! (keep ! i)"]) simp_all
qed

text \<open>
  Claim C5. A row of \<^verbatim>\<open>compas\<close> whose \<^verbatim>\<open>score_text\<close> is \<^verbatim>\<open>"N/A"\<close> appears nowhere:
  every row of a bin table is the score triple of a row with another score text and of the
  type of the table, and the frame that is pivoted, from which every value of the pivoted
  columns is taken, holds no such row.
\<close>

theorem sentinel_rows_never_used:
  "(\<forall>i < length (index (bins t cs)).
      \<exists>r \<in> set cs. score_text r \<noteq> S ''N/A'' \<and> type_of_assessment r = t
        \<and> map (\<lambda>(c, ws). ws ! i) (cols (bins t cs)) = [raw_score r, decile_score r, score_text r])
   \<and> (\<forall>r \<in> set (first_screening_df cs). score_text r \<noteq> S ''N/A'')"
proof -
  have "\<forall>r \<in> set (first_screening_df cs). score_text r \<noteq> S ''N/A''"
    by (auto simp: first_screening_df_def set_compas_df_sorted)
  moreover have "\<forall>i < length (index (bins t cs)).
      \<exists>r \<in> set cs. score_text r \<noteq> S ''N/A'' \<and> type_of_assessment r = t
        \<and> map (\<lambda>(c, ws). ws ! i) (cols (bins t cs)) = [raw_score r, decile_score r, score_text r]"
    using bins_row [of _ t cs] by (intro allI impI)
  ultimately show ?thesis
    by (intro conjI)
qed

theorem sentinel_rows_never_used_witness:
  "0 < length (index (bins ''Risk of Violence'' (compas example_db)))
   \<and> map (\<lambda>(c, ws). ws ! 0) (cols (bins ''Risk of Violence'' (compas example_db)))
       = [F (16 / 5), I 4, S ''Medium'']
   \<and> S ''N/A'' \<in> score_text ` set (compas example_db)
   \<and> S ''N/A'' \<notin> score_text ` set (first_screening_df (compas example_db))"
proof -
  have "0 < length (index (bins ''Risk of Violence'' (compas example_db)))"
    and "map (\<lambda>(c, ws). ws ! 0) (cols (bins ''Risk of Violence'' (compas example_db)))
       = [F (16 / 5), I 4, S ''Medium'']"
    and "S ''N/A'' \<in> score_text ` set (compas example_db)"
    by code_simp+
  moreover have "S ''N/A'' \<notin> score_text ` set (first_screening_df (compas example_db))"
    using sentinel_rows_never_used [of "''Risk of Violence''" "compas example_db"]
    by (auto simp: image_iff)
  ultimately show ?thesis
    by (intro conjI)
qed

section \<open>Properties of the pivot\<close>

lemma pivot_cell_row:
  assumes "distinct (map (\<lambda>r. (compas_person_id r, type_of_assessment r)) fsd)"
    and "r \<in> set fsd"
  shows "pivot_cell fsd v (type_of_assessment r) (compas_person_id r) = v r"
proof -
  let ?P = "\<lambda>r'. compas_person_id r' = compas_person_id r \<and> type_of_assessment r' = type_of_assessment r"
  have inj: "inj_on (\<lambda>r. (compas_person_id r, type_of_assessment r)) (set fsd)"
    using assms(1) by (simp add: distinct_map)
  obtain r' where r': "find ?P fsd = Some r'"
    using assms(2) by (cases "find ?P fsd") (auto simp: find_None_iff)
  then have "r' \<in> set fsd" "?P r'"
    by (auto simp: find_Some_iff)
  then have "r' = r"
    using inj assms(2) by (auto dest: inj_onD)
  then show ?thesis
    by (simp add: pivot_cell_def r')
qed

lemma pivot_cell_not_Null:
  assumes "pivot_cell fsd v t p \<noteq> Null"
  shows "\<exists>r \<in> set fsd. compas_person_id r = p \<and> type_of_assessment r = t \<and> v r \<noteq> Null"
  using assms by (auto simp: pivot_cell_def find_Some_iff split: option.splits)

text \<open>
  Claim C4, as amended. If no person at all has two rows of the same type in the frame that
  is pivoted, the pivot does not raise, and the wide frame has exactly one row for the
  person of every row \<open>r\<close> of that frame and, for each of \<^verbatim>\<open>raw_score\<close>, \<^verbatim>\<open>decile_score\<close> and
  \<^verbatim>\<open>score_text\<close>, a column that holds the value of \<open>r\<close> unchanged in that row; the name of
  the column joins the name of the value column and the type with an underscore, strips
  it, replaces spaces by underscores and turns it to lower case. So a person with one row
  for each of the three types has the three triples of these rows in the wide row. The
  condition is on the whole frame: two rows of one type for any one person make the pivot
  raise a \<^verbatim>\<open>ValueError\<close>, and then there is no wide frame for anybody, as for the first person
  of \<open>duplicate_compas\<close>, who has one row of each type.
\<close>

theorem pivot_round_trip:
  assumes "distinct (map (\<lambda>r. (compas_person_id r, type_of_assessment r)) fsd)"
    and "r \<in> set fsd"
    and "(vn, v) \<in> set score_columns"
  shows "\<exists>keys columns i vs.
    pivoted_df fsd = Inr (keys, columns)
    \<and> i < length keys \<and> keys ! i = compas_person_id r
    \<and> (\<forall>i' < length keys. keys ! i' = compas_person_id r \<longrightarrow> i' = i)
    \<and> (lower (str_replace '' '' ''_'' (strip (vn @ ''_'' @ type_of_assessment r))), vs)
        \<in> set columns
    \<and> length vs = length keys \<and> vs ! i = v r"
proof -
  define keys where "keys = sort (remdups (map compas_person_id fsd))"
  define types where "types = sort (remdups (map type_of_assessment fsd))"
  define pcols where "pcols =
    concat (map (\<lambda>(vn, v). map (\<lambda>t. ((vn, t), map (pivot_cell fsd v t) keys)) types)
              score_columns)"
  define vs where "vs = map (pivot_cell fsd v (type_of_assessment r)) keys"
  have p: "pivoted_df fsd = Inr (keys, map (\<lambda>(col, vs). (flat_name col, vs)) pcols)"
    using assms(1) by (simp add: pivoted_df_def pivot_def keys_def types_def pcols_def Let_def)
  have dk: "distinct keys"
    by (simp add: keys_def)
  have "compas_person_id r \<in> set keys"
    using assms(2) by (simp add: keys_def)
  then obtain i where i: "i < length keys" "keys ! i = compas_person_id r"
    by (auto simp: in_set_conv_nth)
  have uniq: "\<forall>i' < length keys. keys ! i' = compas_person_id r \<longrightarrow> i' = i"
    using dk i by (metis nth_eq_iff_index_eq)
  have "type_of_assessment r \<in> set types"
    using assms(2) by (simp add: types_def)
  then have "((vn, type_of_assessment r), vs)
      \<in> set (map (\<lambda>t. ((vn, t), map (pivot_cell fsd v t) keys)) types)"
    unfolding vs_def set_map by (rule imageI)
  moreover have "map (\<lambda>t. ((vn, t), map (pivot_cell fsd v t) keys)) types
      \<in> set (map (\<lambda>(vn, v). map (\<lambda>t. ((vn, t), map (pivot_cell fsd v t) keys)) types)
            score_columns)"
    using assms(3) by (simp only: set_map) (rule image_eqI [of _ _ "(vn, v)"], simp_all)
  ultimately have "((vn, type_of_assessment r), vs) \<in> set pcols"
    unfolding pcols_def set_concat by (rule UN_I [rotated])
  then have "(flat_name (vn, type_of_assessment r), vs)
      \<in> set (map (\<lambda>(col, vs). (flat_name col, vs)) pcols)"
    by force
  then have col: "(lower (str_replace '' '' ''_'' (strip (vn @ ''_'' @ type_of_assessment r))), vs)
      \<in> set (map (\<lambda>(col, vs). (flat_name col, vs)) pcols)"
    by (simp add: flat_name_def)
  have "vs ! i = v r"
    using i pivot_cell_row [OF assms(1,2)] by (simp add: vs_def)
  moreover have "length vs = length keys"
    by (simp add: vs_def)
  ultimately show ?thesis
    using p i uniq col by blast
qed

lemma pivoted_df_example:
  "pivoted_df (first_screening_df (compas example_db)) =
     Inr ([1, 2],
          [(''raw_score_risk_of_failure_to_appear'', [F 12, Null]),
           (''raw_score_risk_of_recidivism'', [F (11 / 10), F (3 / 2)]),
           (''raw_score_risk_of_violence'', [F (16 / 5), Null]),
           (''decile_score_risk_of_failure_to_appear'', [I 1, Null]),
           (''decile_score_risk_of_recidivism'', [I 2, I 3]),
           (''decile_score_risk_of_violence'', [I 4, Null]),
           (''score_text_risk_of_failure_to_appear'', [S ''Low'', Null]),
           (''score_text_risk_of_recidivism'', [S ''Low'', S ''Low'']),
           (''score_text_risk_of_violence'', [S ''Medium'', Null])])"
  by code_simp

theorem pivot_round_trip_counterexample:
  "pivoted_df (first_screening_df duplicate_compas) = Inl ValueError
   \<and> map type_of_assessment
         (filter (\<lambda>r. compas_person_id r = 1) (first_screening_df duplicate_compas))
       = [''Risk of Violence'', ''Risk of Recidivism'', ''Risk of Failure to Appear'']"
  by code_simp

theorem pivot_round_trip_witness:
  "\<exists>keys columns i vs.
     pivoted_df (first_screening_df (compas example_db)) = Inr (keys, columns)
     \<and> i < length keys \<and> keys ! i = 1
     \<and> (''score_text_risk_of_violence'', vs) \<in> set columns
     \<and> vs ! i = S ''Medium''"
proof -
  let ?fsd = "first_screening_df (compas example_db)"
  let ?r = "\<lparr>compas_person_id = 1, compas_assessment_id = 7,
          type_of_assessment = ''Risk of Violence'', raw_score = F (16 / 5), decile_score = I 4,
          score_text = S ''Medium'', marital_status = S ''Single'', rec_supervision_level = I 1\<rparr>"
  have d: "distinct (map (\<lambda>r. (compas_person_id r, type_of_assessment r)) ?fsd)"
    by code_simp
  have r: "?r \<in> set ?fsd"
    by code_simp
  have c: "(''score_text'', score_text) \<in> set score_columns"
    by (simp add: score_columns_def)
  have n: "lower (str_replace '' '' ''_'' (strip (''score_text'' @ ''_'' @ ''Risk of Violence'')))
      = ''score_text_risk_of_violence''"
    by code_simp
  have "\<exists>keys columns i vs.
     pivoted_df ?fsd = Inr (keys, columns)
     \<and> i < length keys \<and> keys ! i = 1
     \<and> (\<forall>i' < length keys. keys ! i' = 1 \<longrightarrow> i' = i)
     \<and> (''score_text_risk_of_violence'', vs) \<in> set columns
     \<and> length vs = length keys \<and> vs ! i = S ''Medium''"
    using pivot_round_trip [OF d r c] by (simp only: assessment.select_convs n)
  then show ?thesis
    by blast
qed

section \<open>Properties of the person table\<close>

lemma person_table_Inr:
  assumes "person_table d = Inr f"
  obtains ages pdf cs1 cs2 where
    "age_at_first_arrest (casearrest d) (people d) = Inr ages"
    and "pivoted_df (first_screening_df (compas d)) = Inr pdf"
    and "ds_columns
           (zip (rename_columns repl
                   (map fst (cols (ext_people d ages (final_df (first_screening_df (compas d)) pdf)))))
              (map snd (cols (ext_people d ages (final_df (first_screening_df (compas d)) pdf)))))
         = Inr cs1"
    and "male_column cs1 = Inr cs2"
    and "f = \<lparr>index = [0..<length (people d)], cols = cs2\<rparr>"
  using assms
  by (auto simp: person_table_def Let_def ext_people_def split: sum.splits)

lemma ds_column_null:
  assumes "ds_column vs = Inr ws"
  shows "length ws = length vs \<and> (\<forall>j<length vs. ws ! j \<noteq> Null \<longrightarrow> vs ! j \<noteq> Null)"
proof -
  have "vs ! j \<noteq> Null" if "j < length vs" "ws ! j \<noteq> Null" for j
  proof
    assume "vs ! j = Null"
    with ds_column_nth(2) [OF assms that(1)] have "ws ! j = Null"
      by (auto simp: astype_float_def)
    with that(2) show False by simp
  qed
  then show ?thesis
    using ds_column_nth(1) [OF assms] by blast
qed

lemma ds_columns_null:
  assumes "ds_columns cs = Inr cs'"
  shows "list_all2 (\<lambda>x y. fst y = fst x \<and> length (snd y) = length (snd x)
            \<and> (\<forall>j<length (snd x). snd y ! j \<noteq> Null \<longrightarrow> snd x ! j \<noteq> Null)) cs cs'"
proof -
  have "list_all2 (\<lambda>x y. (case x of (c, vs) \<Rightarrow> if contains ''ds_'' c
              then (case ds_column vs of Inl e \<Rightarrow> Inl e | Inr ws \<Rightarrow> Inr (c, ws))
              else Inr (c, vs)) = Inr y) cs cs'"
    using assms by (simp add: ds_columns_def traverse_Inr_iff)
  then show ?thesis
  proof (rule list_all2_mono)
    fix x y
    assume "(case x of (c, vs) \<Rightarrow> if contains ''ds_'' c
              then (case ds_column vs of Inl e \<Rightarrow> Inl e | Inr ws \<Rightarrow> Inr (c, ws))
              else Inr (c, vs)) = Inr y"
    then show "fst y = fst x \<and> length (snd y) = length (snd x)
            \<and> (\<forall>j<length (snd x). snd y ! j \<noteq> Null \<longrightarrow> snd x ! j \<noteq> Null)"
      using ds_column_null by (cases x; cases y) (auto split: if_splits sum.splits)
  qed
qed

lemma astype_int64_not_Null: "astype_int64 v = Inr w \<Longrightarrow> w \<noteq> Null \<and> v \<noteq> Null"
  by (auto simp: astype_int64_def int64_def split: cell.splits sum.splits if_splits)

lemma male_cells:
  assumes "traverse astype_int64 (map replace_r_dict vs) = Inr ws"
  shows "length ws = length vs"
    and "j < length vs \<Longrightarrow> astype_int64 (replace_r_dict (vs ! j)) = Inr (ws ! j)"
  using traverse_length [OF assms] traverse_nth [OF assms, of j] by simp_all

lemma male_column_null:
  assumes "male_column cs = Inr cs'"
  shows "list_all2 (\<lambda>x y. fst y = fst x \<and> length (snd y) = length (snd x)
            \<and> (\<forall>j<length (snd x). snd y ! j \<noteq> Null \<longrightarrow> snd x ! j \<noteq> Null)) cs cs'"
proof -
  have "list_all2 (\<lambda>x y. (case x of (c, vs) \<Rightarrow> if c = ''male''
              then (case traverse astype_int64 (map replace_r_dict vs) of
                      Inl e \<Rightarrow> Inl e | Inr ws \<Rightarrow> Inr (c, ws))
              else Inr (c, vs)) = Inr y) cs cs'"
    using assms by (simp add: male_column_def traverse_Inr_iff split: if_splits)
  then show ?thesis
  proof (rule list_all2_mono)
    fix x y
    assume a: "(case x of (c, vs) \<Rightarrow> if c = ''male''
              then (case traverse astype_int64 (map replace_r_dict vs) of
                      Inl e \<Rightarrow> Inl e | Inr ws \<Rightarrow> Inr (c, ws))
              else Inr (c, vs)) = Inr y"
    obtain c vs where x: "x = (c, vs)" by (cases x)
    obtain c' ws where y: "y = (c', ws)" by (cases y)
    show "fst y = fst x \<and> length (snd y) = length (snd x)
            \<and> (\<forall>j<length (snd x). snd y ! j \<noteq> Null \<longrightarrow> snd x ! j \<noteq> Null)"
    proof (cases "c = ''male''")
      case False
      then show ?thesis using a by (simp add: x y)
    next
      case True
      with a have t: "traverse astype_int64 (map replace_r_dict vs) = Inr ws" and c: "c' = c"
        by (auto simp: x y split: sum.splits)
      have "vs ! j \<noteq> Null" if "j < length vs" for j
        using male_cells(2) [OF t that] astype_int64_not_Null [of "replace_r_dict (vs ! j)" "ws ! j"]
        by (auto simp: replace_r_dict_def split: if_splits)
      then show ?thesis
        using male_cells(1) [OF t] c by (simp add: x y)
    qed
  qed
qed

lemma list_all2_zip_snd:
  assumes "length ns = length cs"
  shows "list_all2 (\<lambda>x y. snd y = snd x) cs (zip ns (map snd cs))"
  using assms by (simp add: list_all2_conv_all_nth)

lemma person_table_null:
  assumes "person_table d = Inr f"
  obtains ages pdf where
    "age_at_first_arrest (casearrest d) (people d) = Inr ages"
    and "pivoted_df (first_screening_df (compas d)) = Inr pdf"
    and "index f = [0..<length (people d)]"
    and "list_all2 (\<lambda>x y. length (snd y) = length (snd x)
            \<and> (\<forall>j<length (snd x). snd y ! j \<noteq> Null \<longrightarrow> snd x ! j \<noteq> Null))
           (cols (ext_people d ages (final_df (first_screening_df (compas d)) pdf))) (cols f)"
proof -
  from assms obtain ages pdf cs1 cs2 where
    a: "age_at_first_arrest (casearrest d) (people d) = Inr ages"
    and p: "pivoted_df (first_screening_df (compas d)) = Inr pdf"
    and c1: "ds_columns
           (zip (rename_columns repl
                   (map fst (cols (ext_people d ages (final_df (first_screening_df (compas d)) pdf)))))
              (map snd (cols (ext_people d ages (final_df (first_screening_df (compas d)) pdf)))))
         = Inr cs1"
    and c2: "male_column cs1 = Inr cs2"
    and f: "f = \<lparr>index = [0..<length (people d)], cols = cs2\<rparr>"
    by (rule person_table_Inr)
  let ?C = "cols (ext_people d ages (final_df (first_screening_df (compas d)) pdf))"
  let ?R = "\<lambda>x y. length (snd y) = length (snd x)
            \<and> (\<forall>j<length (snd x). snd y ! j \<noteq> Null \<longrightarrow> snd x ! j \<noteq> Null)"
  have "list_all2 (\<lambda>x y. snd y = snd x) ?C (zip (rename_columns repl (map fst ?C)) (map snd ?C))"
    by (rule list_all2_zip_snd) (simp add: rename_columns_length)
  then have "list_all2 ?R ?C cs1"
    using ds_columns_null [OF c1] by (rule list_all2_trans [rotated]) auto
  then have "list_all2 ?R ?C cs2"
    using male_column_null [OF c2] by (rule list_all2_trans [rotated]) auto
  then show ?thesis
    using a p f that by simp
qed

lemma dropna_index_range:
  assumes "index f = [0..<n]" and "j \<in> set (index (dropna f))"
  shows "j < n \<and> (\<forall>(c, ws) \<in> set (cols f). ws ! j \<noteq> Null)"
proof -
  from assms(2) obtain k where k: "k < n" "\<forall>(c, vs) \<in> set (cols f). vs ! k \<noteq> Null"
    and j: "j = index f ! k"
    unfolding dropna_index by (auto simp: assms(1))
  then have "j = k"
    by (simp add: assms(1))
  with k show ?thesis
    by simp
qed

lemma written_cells_not_Null:
  assumes "person_table d = Inr f" and "j \<in> set (index (dropna f))"
    and "age_at_first_arrest (casearrest d) (people d) = Inr ages"
    and "pivoted_df (first_screening_df (compas d)) = Inr pdf"
    and "(c, vs) \<in> set (cols (ext_people d ages (final_df (first_screening_df (compas d)) pdf)))"
    and "length vs = length (people d)"
  shows "j < length (people d) \<and> vs ! j \<noteq> Null"
proof -
  from assms(1) obtain ages' pdf' where
    "age_at_first_arrest (casearrest d) (people d) = Inr ages'"
    "pivoted_df (first_screening_df (compas d)) = Inr pdf'"
    and i: "index f = [0..<length (people d)]"
    and l: "list_all2 (\<lambda>x y. length (snd y) = length (snd x)
            \<and> (\<forall>j<length (snd x). snd y ! j \<noteq> Null \<longrightarrow> snd x ! j \<noteq> Null))
           (cols (ext_people d ages' (final_df (first_screening_df (compas d)) pdf'))) (cols f)"
    by (rule person_table_null)
  with assms(3,4) have l': "list_all2 (\<lambda>x y. length (snd y) = length (snd x)
            \<and> (\<forall>j<length (snd x). snd y ! j \<noteq> Null \<longrightarrow> snd x ! j \<noteq> Null))
           (cols (ext_people d ages (final_df (first_screening_df (compas d)) pdf))) (cols f)"
    by simp
  from dropna_index_range [OF i assms(2)]
  have j: "j < length (people d)" and nn: "\<forall>(c, ws) \<in> set (cols f). ws ! j \<noteq> Null"
    by auto
  from assms(5) obtain k where
    k: "k < length (cols (ext_people d ages (final_df (first_screening_df (compas d)) pdf)))"
    "cols (ext_people d ages (final_df (first_screening_df (compas d)) pdf)) ! k = (c, vs)"
    by (auto simp: in_set_conv_nth)
  have kf: "k < length (cols f)"
    using k(1) list_all2_lengthD [OF l'] by simp
  have "snd (cols f ! k) ! j \<noteq> Null \<longrightarrow> vs ! j \<noteq> Null"
    using list_all2_nthD [OF l' k(1)] j by (simp add: k(2) assms(6))
  moreover have "snd (cols f ! k) ! j \<noteq> Null"
    using nn nth_mem [OF kf] by (cases "cols f ! k") auto
  ultimately show ?thesis
    using j by simp
qed

lemma lookup_zip_map: "lookup (zip ks (map g ks)) k = (if k \<in> set ks then g k else Null)"
  by (simp add: lookup_def map_of_zip_map)

lemma pivoted_df_Inr:
  assumes "pivoted_df fsd = Inr pdf"
  shows "distinct (map (\<lambda>r. (compas_person_id r, type_of_assessment r)) fsd)"
    and "pdf = (sort (remdups (map compas_person_id fsd)),
                map (\<lambda>(col, vs). (flat_name col, vs))
                  (concat (map (\<lambda>(vn, v). map (\<lambda>t. ((vn, t),
                       map (pivot_cell fsd v t) (sort (remdups (map compas_person_id fsd)))))
                     (sort (remdups (map type_of_assessment fsd)))) score_columns)))"
  using assms by (auto simp: pivoted_df_def pivot_def Let_def split: if_splits sum.splits)

lemma pivot_column_in_ext_people:
  assumes "pivoted_df fsd = Inr pdf" and "(vn, v) \<in> set score_columns"
    and "t \<in> type_of_assessment ` set fsd"
  shows "\<exists>vs. (flat_name (vn, t), vs) \<in> set (cols (ext_people d ages (final_df fsd pdf)))
    \<and> length vs = length (people d)
    \<and> (\<forall>j < length (people d).
          vs ! j \<noteq> Null \<longrightarrow> pivot_cell fsd v t (person_id (people d ! j)) \<noteq> Null)"
proof -
  define idx where "idx = sort (remdups (map compas_person_id fsd))"
  define types where "types = sort (remdups (map type_of_assessment fsd))"
  define pcols where "pcols =
    concat (map (\<lambda>(vn, v). map (\<lambda>t. ((vn, t), map (pivot_cell fsd v t) idx)) types)
              score_columns)"
  define keys where "keys = fst (final_df fsd pdf)"
  define g where "g = lookup (zip idx (map (pivot_cell fsd v t) idx))"
  define vs where "vs = map (\<lambda>p. lookup (zip keys (map g keys)) (person_id p)) (people d)"
  have pdf: "pdf = (idx, map (\<lambda>(col, vs). (flat_name col, vs)) pcols)"
    using pivoted_df_Inr(2) [OF assms(1)] by (simp add: idx_def types_def pcols_def)
  have "t \<in> set types"
    using assms(3) by (simp add: types_def)
  then have "((vn, t), map (pivot_cell fsd v t) idx)
      \<in> set (map (\<lambda>t. ((vn, t), map (pivot_cell fsd v t) idx)) types)"
    unfolding set_map by (rule imageI)
  moreover have "map (\<lambda>t. ((vn, t), map (pivot_cell fsd v t) idx)) types
      \<in> set (map (\<lambda>(vn, v). map (\<lambda>t. ((vn, t), map (pivot_cell fsd v t) idx)) types)
            score_columns)"
    using assms(2) by (simp only: set_map) (rule image_eqI [of _ _ "(vn, v)"], simp_all)
  ultimately have "((vn, t), map (pivot_cell fsd v t) idx) \<in> set pcols"
    unfolding pcols_def set_concat by (rule UN_I [rotated])
  then have "(flat_name (vn, t), map (pivot_cell fsd v t) idx) \<in> set (snd pdf)"
    unfolding pdf by force
  then have "(flat_name (vn, t), map g keys) \<in> set (snd (final_df fsd pdf))"
    unfolding keys_def g_def by (force simp: final_df_def Let_def pdf)
  then have "(flat_name (vn, t), vs) \<in> set (cols (ext_people d ages (final_df fsd pdf)))"
    unfolding vs_def keys_def by (force simp: ext_people_def)
  moreover have "length vs = length (people d)"
    by (simp add: vs_def)
  moreover have "pivot_cell fsd v t (person_id (people d ! j)) \<noteq> Null"
    if "j < length (people d)" "vs ! j \<noteq> Null" for j
    using that by (auto simp: vs_def g_def lookup_zip_map split: if_splits)
  ultimately show ?thesis
    by blast
qed

lemma written_person_type:
  assumes "run d = Inr out" and "j \<in> set (index (compas_csv out))"
    and "t \<in> type_of_assessment ` set (first_screening_df (compas d))"
  shows "j < length (people d) \<and>
    (\<exists>r \<in> set (first_screening_df (compas d)).
       compas_person_id r = person_id (people d ! j) \<and> type_of_assessment r = t
       \<and> raw_score r \<noteq> Null \<and> decile_score r \<noteq> Null \<and> score_text r \<noteq> Null
       \<and> score_text r \<noteq> S ''N/A'')"
proof -
  let ?fsd = "first_screening_df (compas d)"
  let ?p = "person_id (people d ! j)"
  from run_Inr [OF assms(1)] obtain f where f: "person_table d = Inr f"
    and out: "compas_csv out = dropna f"
    by blast
  from f obtain ages pdf where a: "age_at_first_arrest (casearrest d) (people d) = Inr ages"
    and p: "pivoted_df ?fsd = Inr pdf"
    by (rule person_table_null)
  have j: "j \<in> set (index (dropna f))"
    using assms(2) by (simp add: out)
  have cell: "j < length (people d) \<and> pivot_cell ?fsd v t ?p \<noteq> Null"
    if "(vn, v) \<in> set score_columns" for vn v
  proof -
    from pivot_column_in_ext_people [OF p that assms(3), of d ages] obtain vs where
      vs: "(flat_name (vn, t), vs) \<in> set (cols (ext_people d ages (final_df ?fsd pdf)))"
      "length vs = length (people d)"
      "\<forall>j < length (people d). vs ! j \<noteq> Null \<longrightarrow> pivot_cell ?fsd v t (person_id (people d ! j)) \<noteq> Null"
      by blast
    from written_cells_not_Null [OF f j a p vs(1,2)] vs(3) show ?thesis
      by simp
  qed
  have raw: "pivot_cell ?fsd raw_score t ?p \<noteq> Null" and jl: "j < length (people d)"
    using cell [of "''raw_score''" raw_score] by (simp_all add: score_columns_def)
  from pivot_cell_not_Null [OF raw] obtain r where r: "r \<in> set ?fsd"
    "compas_person_id r = ?p" "type_of_assessment r = t" "raw_score r \<noteq> Null"
    by blast
  have d: "distinct (map (\<lambda>r. (compas_person_id r, type_of_assessment r)) ?fsd)"
    using p by (rule pivoted_df_Inr(1))
  have same: "pivot_cell ?fsd v t ?p = v r" for v
    using pivot_cell_row [OF d r(1), of v] by (simp add: r(2,3))
  have "decile_score r \<noteq> Null"
    using cell [of "''decile_score''" decile_score] by (simp add: score_columns_def same)
  moreover have "score_text r \<noteq> Null"
    using cell [of "''score_text''" score_text] by (simp add: score_columns_def same)
  moreover have "score_text r \<noteq> S ''N/A''"
    using r(1) by (auto simp: first_screening_df_def set_compas_df_sorted)
  ultimately show ?thesis
    using jl r by blast
qed

lemma set_drop_duplicates: "set (drop_duplicates seen rs) \<subseteq> set rs"
  by (induction rs arbitrary: seen) auto

lemma marital_status_in_ext_people:
  "\<exists>vs. (''marital_status'', vs) \<in> set (cols (ext_people d ages (final_df fsd pdf)))
    \<and> length vs = length (people d)
    \<and> (\<forall>j < length (people d).
          vs ! j \<noteq> Null \<longrightarrow> (\<exists>r \<in> set fsd. compas_person_id r = person_id (people d ! j)))"
proof -
  define oc where
    "oc = filter (\<lambda>r. compas_person_id r \<in> set (fst pdf)) (drop_duplicates [] fsd)"
  define vs where "vs = map (\<lambda>p. lookup (zip (map compas_person_id oc) (map marital_status oc))
                                (person_id p)) (people d)"
  have "(''marital_status'', map marital_status oc) \<in> set (snd (final_df fsd pdf))"
    by (simp add: final_df_def Let_def oc_def)
  moreover have "fst (final_df fsd pdf) = map compas_person_id oc"
    by (simp add: final_df_def Let_def oc_def)
  ultimately have "(''marital_status'', vs) \<in> set (cols (ext_people d ages (final_df fsd pdf)))"
    unfolding vs_def by (force simp: ext_people_def)
  moreover have "length vs = length (people d)"
    by (simp add: vs_def)
  moreover have "\<exists>r \<in> set fsd. compas_person_id r = person_id (people d ! j)"
    if "j < length (people d)" "vs ! j \<noteq> Null" for j
  proof -
    from that obtain v where
      "map_of (zip (map compas_person_id oc) (map marital_status oc)) (person_id (people d ! j))
         = Some v"
      by (auto simp: vs_def lookup_def split: option.splits)
    then have "person_id (people d ! j) \<in> set (map compas_person_id oc)"
      by (auto dest!: map_of_SomeD set_zip_leftD)
    then obtain r where "r \<in> set oc" "compas_person_id r = person_id (people d ! j)"
      by auto
    moreover have "set oc \<subseteq> set fsd"
      unfolding oc_def using set_drop_duplicates [of "[]" fsd] by auto
    ultimately show ?thesis
      by blast
  qed
  ultimately show ?thesis
    by blast
qed

lemma written_person_row:
  assumes "run d = Inr out" and "j \<in> set (index (compas_csv out))"
  shows "\<exists>r \<in> set (first_screening_df (compas d)). compas_person_id r = person_id (people d ! j)"
proof -
  let ?fsd = "first_screening_df (compas d)"
  from run_Inr [OF assms(1)] obtain f where f: "person_table d = Inr f"
    and out: "compas_csv out = dropna f"
    by blast
  from f obtain ages pdf where a: "age_at_first_arrest (casearrest d) (people d) = Inr ages"
    and p: "pivoted_df ?fsd = Inr pdf"
    by (rule person_table_null)
  have j: "j \<in> set (index (dropna f))"
    using assms(2) by (simp add: out)
  from marital_status_in_ext_people [of d ages ?fsd pdf] obtain vs where
    vs: "(''marital_status'', vs) \<in> set (cols (ext_people d ages (final_df ?fsd pdf)))"
    "length vs = length (people d)"
    "\<forall>j < length (people d).
          vs ! j \<noteq> Null \<longrightarrow> (\<exists>r \<in> set ?fsd. compas_person_id r = person_id (people d ! j))"
    by blast
  from written_cells_not_Null [OF f j a p vs(1,2)] vs(3) show ?thesis
    by simp
qed

text \<open>
  Claim C10, as amended. A person whose row is written has at least one row in the frame
  that is pivoted (the rows of the person's first assessment that survive the filter), and
  has there a row of every type that occurs in that frame at all, for whatever person; the
  raw score, the decile score and the score text of that row are not null. When all three
  types occur in the frame, these are all three types. (Everybody else has a null in a
  merged column and falls to the last \<^verbatim>\<open>dropna\<close>.)
\<close>

theorem written_person_has_every_type:
  assumes "run d = Inr out" and "j \<in> set (index (compas_csv out))"
  shows "j < length (people d)
    \<and> (\<exists>r \<in> set (first_screening_df (compas d)). compas_person_id r = person_id (people d ! j))
    \<and> (\<forall>t \<in> type_of_assessment ` set (first_screening_df (compas d)).
         \<exists>r \<in> set (first_screening_df (compas d)).
           compas_person_id r = person_id (people d ! j) \<and> type_of_assessment r = t
           \<and> raw_score r \<noteq> Null \<and> decile_score r \<noteq> Null \<and> score_text r \<noteq> Null
           \<and> score_text r \<noteq> S ''N/A'')"
proof -
  from written_person_row [OF assms] obtain r where
    r: "r \<in> set (first_screening_df (compas d))" "compas_person_id r = person_id (people d ! j)"
    by blast
  then have "type_of_assessment r \<in> type_of_assessment ` set (first_screening_df (compas d))"
    by simp
  from written_person_type [OF assms this] have "j < length (people d)"
    by simp
  then show ?thesis
    using r written_person_type [OF assms] by blast
qed

theorem written_person_has_every_type_counterexample:
  "run one_type_db =
     Inr \<lparr>compas_csv =
            \<lparr>index = [0],
             cols =
               [(''male'', [I 1]), (''age'', [I 40]), (''age_at_first_arrest'', [I 40]),
                (''marital_status'', [S ''Single'']), (''slevel'', [I 1]),
                (''rs_vrecid'', [F (16 / 5)]), (''ds_vrecid'', [I 4]),
                (''vrecid_text'', [S ''Medium''])]\<rparr>,
          fta_bins_csv =
            \<lparr>index = [],
             cols = [(''raw_score'', []), (''decile_score'', []), (''score_text'', [])]\<rparr>,
          grecid_bins_csv =
            \<lparr>index = [],
             cols = [(''raw_score'', []), (''decile_score'', []), (''score_text'', [])]\<rparr>,
          vrecid_bins_csv =
            \<lparr>index = [0],
             cols = [(''raw_score'', [F (16 / 5)]), (''decile_score'', [I 4]),
                     (''score_text'', [S ''Medium''])]\<rparr>\<rparr>
   \<and> map type_of_assessment (first_screening_df (compas one_type_db)) = [''Risk of Violence'']"
  by code_simp

theorem written_person_has_every_type_witness:
  "0 < length (people example_db)
   \<and> (\<exists>r \<in> set (first_screening_df (compas example_db)).
         compas_person_id r = 1 \<and> type_of_assessment r = ''Risk of Violence''
         \<and> raw_score r \<noteq> Null \<and> decile_score r \<noteq> Null \<and> score_text r \<noteq> Null
         \<and> score_text r \<noteq> S ''N/A'')"
proof -
  have t: "''Risk of Violence'' \<in> type_of_assessment ` set (first_screening_df (compas example_db))"
    by code_simp
  have p: "person_id (people example_db ! 0) = 1"
    by (simp add: example_db_def)
  have j: "0 \<in> set (index (compas_csv (projr (run example_db))))"
    by (simp add: run_example_db)
  have "run example_db = Inr (projr (run example_db))"
    by (simp add: run_example_db)
  from written_person_has_every_type [OF this j] t show ?thesis
    unfolding p by blast
qed







section \<open>Properties of dates\<close>





















section \<open>Properties of strptime\<close>












section \<open>Properties of the first arrest\<close>






lemma quotient_off_tie:
  fixes n k :: int
  shows "1 / 2922 \<le> \<bar>of_int n / (36525 / 100) - (of_int k + 1 / 2 :: rat)\<bar>"
proof -
  define z where "z = 8 * n - 1461 * (2 * k + 1)"
  have "odd z"
    by (simp add: z_def)
  then have "z \<noteq> 0"
    by auto
  then have "1 \<le> \<bar>z\<bar>"
    by simp
  then have "(of_int 1 :: rat) \<le> of_int \<bar>z\<bar>"
    by (simp only: of_int_le_iff)
  then have "(1::rat) \<le> \<bar>of_int z\<bar>"
    by simp
  moreover have "of_int n / (36525 / 100) - (of_int k + 1 / 2 :: rat) = of_int z / 2922"
    by (simp add: z_def field_simps)
  ultimately show ?thesis
    by (simp add: field_simps)
qed






end
